theory Spec2Isabelle
  imports Complex_Main
begin

text \<open>
  The Kepler propagator of the viewer (\<open>d3/script.js\<close>): the solver of Kepler's equation
  \<open>solveKepler\<close>, the conversion \<open>elementsToPosition\<close> of orbital elements to a
  heliocentric position, and the cross-validation \<open>crossValidateElements\<close> of the
  elements of an object against its recorded positions.
\<close>

section \<open>JavaScript numbers and values\<close>

text \<open>
  A JavaScript number is modelled as a finite real or one of the three IEEE special
  values. Arithmetic on finite values is exact (rounding and overflow of binary64 are
  abstracted away) and zero carries no sign, so a division of a non-zero finite value by
  zero yields the infinity whose sign is that of the dividend. The special values follow
  the rules of ECMAScript: \<open>NaN\<close> is absorbing, \<open>Infinity - Infinity\<close> and
  \<open>0 * Infinity\<close> are \<open>NaN\<close>, every comparison with \<open>NaN\<close> is false.
\<close>

datatype jsnum = Fin real | PInf | NInf | NaN

fun jneg :: "jsnum \<Rightarrow> jsnum" where
  "jneg (Fin x) = Fin (- x)"
| "jneg PInf = NInf"
| "jneg NInf = PInf"
| "jneg NaN = NaN"

fun jadd :: "jsnum \<Rightarrow> jsnum \<Rightarrow> jsnum" where
  "jadd (Fin x) (Fin y) = Fin (x + y)"
| "jadd (Fin x) PInf = PInf"
| "jadd (Fin x) NInf = NInf"
| "jadd PInf (Fin y) = PInf"
| "jadd NInf (Fin y) = NInf"
| "jadd PInf PInf = PInf"
| "jadd NInf NInf = NInf"
| "jadd _ _ = NaN"

definition jsub :: "jsnum \<Rightarrow> jsnum \<Rightarrow> jsnum" where
  "jsub a b = jadd a (jneg b)"

fun jmul :: "jsnum \<Rightarrow> jsnum \<Rightarrow> jsnum" where
  "jmul (Fin x) (Fin y) = Fin (x * y)"
| "jmul (Fin x) PInf = (if x = 0 then NaN else if 0 < x then PInf else NInf)"
| "jmul (Fin x) NInf = (if x = 0 then NaN else if 0 < x then NInf else PInf)"
| "jmul PInf (Fin y) = (if y = 0 then NaN else if 0 < y then PInf else NInf)"
| "jmul NInf (Fin y) = (if y = 0 then NaN else if 0 < y then NInf else PInf)"
| "jmul PInf PInf = PInf"
| "jmul PInf NInf = NInf"
| "jmul NInf PInf = NInf"
| "jmul NInf NInf = PInf"
| "jmul _ _ = NaN"

fun jdiv :: "jsnum \<Rightarrow> jsnum \<Rightarrow> jsnum" where
  "jdiv (Fin x) (Fin y) =
     (if y = 0 then (if x = 0 then NaN else if 0 < x then PInf else NInf)
      else Fin (x / y))"
| "jdiv (Fin x) PInf = Fin 0"
| "jdiv (Fin x) NInf = Fin 0"
| "jdiv PInf (Fin y) = (if 0 \<le> y then PInf else NInf)"
| "jdiv NInf (Fin y) = (if 0 \<le> y then NInf else PInf)"
| "jdiv _ _ = NaN"

text \<open>The remainder operator \<open>%\<close> truncates the quotient towards zero.\<close>

definition rtrunc :: "real \<Rightarrow> int" where
  "rtrunc q = (if 0 \<le> q then \<lfloor>q\<rfloor> else \<lceil>q\<rceil>)"

fun jmod :: "jsnum \<Rightarrow> jsnum \<Rightarrow> jsnum" where
  "jmod (Fin x) (Fin y) =
     (if y = 0 then NaN else Fin (x - y * of_int (rtrunc (x / y))))"
| "jmod (Fin x) PInf = Fin x"
| "jmod (Fin x) NInf = Fin x"
| "jmod _ _ = NaN"

fun jsqrt :: "jsnum \<Rightarrow> jsnum" where
  "jsqrt (Fin x) = (if x < 0 then NaN else Fin (sqrt x))"
| "jsqrt PInf = PInf"
| "jsqrt _ = NaN"

fun jsin :: "jsnum \<Rightarrow> jsnum" where
  "jsin (Fin x) = Fin (sin x)"
| "jsin _ = NaN"

fun jcos :: "jsnum \<Rightarrow> jsnum" where
  "jcos (Fin x) = Fin (cos x)"
| "jcos _ = NaN"

fun jabs :: "jsnum \<Rightarrow> jsnum" where
  "jabs (Fin x) = Fin \<bar>x\<bar>"
| "jabs PInf = PInf"
| "jabs NInf = PInf"
| "jabs NaN = NaN"

fun jlt :: "jsnum \<Rightarrow> jsnum \<Rightarrow> bool" where
  "jlt (Fin x) (Fin y) = (x < y)"
| "jlt (Fin x) PInf = True"
| "jlt NInf (Fin y) = True"
| "jlt NInf PInf = True"
| "jlt _ _ = False"

text \<open>\<open>Math.atan2(y, x)\<close> on finite arguments: the angle of the point \<open>(x, y)\<close> in
  \<open>(-\<pi>, \<pi>]\<close>, and \<open>0\<close> at the origin.\<close>

definition atan2 :: "real \<Rightarrow> real \<Rightarrow> real" where
  "atan2 y x =
     (if 0 < x then arctan (y / x)
      else if x < 0 then (if 0 \<le> y then arctan (y / x) + pi else arctan (y / x) - pi)
      else if 0 < y then pi / 2
      else if y < 0 then - pi / 2
      else 0)"

fun jatan2 :: "jsnum \<Rightarrow> jsnum \<Rightarrow> jsnum" where
  "jatan2 (Fin y) (Fin x) = Fin (atan2 y x)"
| "jatan2 (Fin y) PInf = Fin 0"
| "jatan2 (Fin y) NInf = Fin (if 0 \<le> y then pi else - pi)"
| "jatan2 PInf (Fin x) = Fin (pi / 2)"
| "jatan2 NInf (Fin x) = Fin (- pi / 2)"
| "jatan2 PInf PInf = Fin (pi / 4)"
| "jatan2 PInf NInf = Fin (3 * pi / 4)"
| "jatan2 NInf PInf = Fin (- pi / 4)"
| "jatan2 NInf NInf = Fin (- 3 * pi / 4)"
| "jatan2 _ _ = NaN"

definition PI :: jsnum where
  "PI = Fin pi"

text \<open>
  The values the viewer reads from \<open>scene.json\<close>: a number, \<open>null\<close>, or
  \<open>undefined\<close> for a property that is not there (also an array read past the end).
\<close>

datatype jsval = Undefined | Null | Number jsnum

text \<open>\<open>ToNumber\<close>, applied by every arithmetic operator and comparison.\<close>

fun toNumber :: "jsval \<Rightarrow> jsnum" where
  "toNumber Undefined = NaN"
| "toNumber Null = Fin 0"
| "toNumber (Number n) = n"

text \<open>\<open>ToBoolean\<close>: \<open>undefined\<close>, \<open>null\<close>, \<open>0\<close> and \<open>NaN\<close> are falsy.\<close>

fun truthy :: "jsval \<Rightarrow> bool" where
  "truthy Undefined = False"
| "truthy Null = False"
| "truthy (Number n) = (n \<noteq> Fin 0 \<and> n \<noteq> NaN)"

text \<open>\<open>v || 0\<close>, used as a number.\<close>

definition or_zero :: "jsval \<Rightarrow> jsnum" where
  "or_zero v = (if truthy v then toNumber v else Fin 0)"

text \<open>An array read \<open>xs[i]\<close>: \<open>undefined\<close> past the end.\<close>

definition aget :: "jsval list \<Rightarrow> nat \<Rightarrow> jsval" where
  "aget xs i = (if i < length xs then xs ! i else Undefined)"

section \<open>The Kepler solver\<close>

definition AU_KM :: real where
  "AU_KM = 149597870.7"

definition MU_SUN :: real where
  "MU_SUN = 132712440018"

text \<open>
  The \<open>for\<close> loop of \<open>solveKepler\<close>, from counter \<open>i\<close> and iterate \<open>E\<close>. The
  iteration cap \<open>maxiter\<close> is a natural number, as in every call of the source.
\<close>

function kepler_loop :: "jsnum \<Rightarrow> jsnum \<Rightarrow> jsnum \<Rightarrow> nat \<Rightarrow> nat \<Rightarrow> jsnum \<Rightarrow> jsnum" where
  "kepler_loop M e tol maxiter i E =
     (if i < maxiter then
        (let f = jsub (jsub E (jmul e (jsin E))) M;
             fp = jsub (Fin 1) (jmul e (jcos E));
             dE = jdiv (jneg f) fp;
             E' = jadd E dE
         in if jlt (jabs dE) tol then E' else kepler_loop M e tol maxiter (Suc i) E')
      else E)"
  by pat_completeness auto
termination
  by (relation "measure (\<lambda>(M, e, tol, maxiter, i, E). maxiter - i)") auto

definition normalize_anomaly :: "jsnum \<Rightarrow> jsnum" where
  "normalize_anomaly M =
     jmod (jadd (jmod M (jmul (Fin 2) PI)) (jmul (Fin 2) PI)) (jmul (Fin 2) PI)"

definition solveKepler :: "jsnum \<Rightarrow> jsnum \<Rightarrow> jsnum \<Rightarrow> nat \<Rightarrow> jsnum" where
  "solveKepler M e tol maxiter =
     (let M' = normalize_anomaly M;
          E = (if jlt e (Fin 0.8) then M' else PI)
      in kepler_loop M' e tol maxiter 0 E)"



section \<open>Orbital elements to position\<close>

text \<open>\<open>solveKepler(M, e)\<close> with its default tolerance and iteration cap.\<close>

definition solveKepler_default :: "jsnum \<Rightarrow> jsnum \<Rightarrow> jsnum" where
  "solveKepler_default M e = solveKepler M e (Fin (1 / 10 ^ 9)) 80"

text \<open>\<open>targetJD\<close> is \<open>None\<close> for \<open>null\<close> (the default of the parameter).\<close>

definition elementsToPosition ::
  "jsnum \<Rightarrow> jsnum \<Rightarrow> jsnum \<Rightarrow> jsnum \<Rightarrow> jsnum \<Rightarrow> jsnum \<Rightarrow> jsnum \<Rightarrow> jsnum option
     \<Rightarrow> jsnum \<times> jsnum \<times> jsnum" where
  "elementsToPosition a_AU e i_deg Omega_deg omega_deg M_deg epochJD targetJD =
     (let a_km = jmul a_AU (Fin AU_KM);
          i = jdiv (jmul i_deg PI) (Fin 180);
          Omega = jdiv (jmul Omega_deg PI) (Fin 180);
          omega = jdiv (jmul omega_deg PI) (Fin 180);
          n = jsqrt (jdiv (Fin MU_SUN) (jmul (jmul a_km a_km) a_km));
          M0 = jdiv (jmul M_deg PI) (Fin 180);
          M = (case targetJD of
                 None \<Rightarrow> M0
               | Some t \<Rightarrow> (let dt = jmul (jsub t epochJD) (Fin 86400) in jadd M0 (jmul n dt)));
          E = solveKepler_default M e;
          cosE = jcos E;
          sinE = jsin E;
          sqrt1e2 = jsqrt (jsub (Fin 1) (jmul e e));
          nu = jatan2 (jmul sqrt1e2 sinE) (jsub cosE e);
          r = jmul a_km (jsub (Fin 1) (jmul e cosE));
          x_pf = jmul r (jcos nu);
          y_pf = jmul r (jsin nu);
          z_pf = Fin 0;
          cosO = jcos Omega; sinO = jsin Omega;
          cosi = jcos i; sini = jsin i;
          cosw = jcos omega; sinw = jsin omega;
          r11 = jsub (jmul cosO cosw) (jmul (jmul sinO sinw) cosi);
          r12 = jsub (jmul (jneg cosO) sinw) (jmul (jmul sinO cosw) cosi);
          r13 = jmul sinO sini;
          r21 = jadd (jmul sinO cosw) (jmul (jmul cosO sinw) cosi);
          r22 = jadd (jmul (jneg sinO) sinw) (jmul (jmul cosO cosw) cosi);
          r23 = jmul (jneg cosO) sini;
          r31 = jmul sinw sini;
          r32 = jmul cosw sini;
          r33 = cosi;
          x = jadd (jadd (jmul r11 x_pf) (jmul r12 y_pf)) (jmul r13 z_pf);
          y = jadd (jadd (jmul r21 x_pf) (jmul r22 y_pf)) (jmul r23 z_pf);
          z = jadd (jadd (jmul r31 x_pf) (jmul r32 y_pf)) (jmul r33 z_pf)
      in (x, y, z))"

section \<open>Cross-validation against recorded positions\<close>

text \<open>
  The data of \<open>scene.json\<close> the function reads: the shared time grid
  \<open>scene.times_jd\<close>, and for an object its optional \<open>elements\<close> and the
  coordinate arrays \<open>x\<close>, \<open>y\<close>, \<open>z\<close>, index-aligned with the grid, \<open>null\<close>
  where the object has no position.
\<close>

record orbital_elements =
  el_a_AU :: jsval
  el_e :: jsval
  el_i_deg :: jsval

record obj =
  obj_id :: string
  elements :: "orbital_elements option"
  obj_x :: "jsval list"
  obj_y :: "jsval list"
  obj_z :: "jsval list"

record scene =
  times_jd :: "jsnum list"

record validation =
  rms_km :: jsnum
  samples :: nat

text \<open>
  \<open>times[idx]\<close> as it reaches the parameter \<open>targetJD\<close>: past the end the read is
  \<open>undefined\<close>, which the parameter's default turns into \<open>null\<close>.
\<close>

definition tget :: "jsnum list \<Rightarrow> nat \<Rightarrow> jsnum option" where
  "tget ts i = (if i < length ts then Some (ts ! i) else None)"

text \<open>The first loop: the indices of the time grid where \<open>x\<close> and \<open>y\<close> are not \<open>null\<close>.\<close>

definition validIdx_of :: "jsnum list \<Rightarrow> jsval list \<Rightarrow> jsval list \<Rightarrow> nat list" where
  "validIdx_of tms xs ys =
     filter (\<lambda>i. aget xs i \<noteq> Null \<and> aget ys i \<noteq> Null) [0..<length tms]"

text \<open>
  The second loop, from position \<open>j\<close> with the samples pushed so far. \<open>numSamples\<close> is
  an integer.
\<close>

function select_loop :: "nat list \<Rightarrow> int \<Rightarrow> nat \<Rightarrow> nat \<Rightarrow> nat list \<Rightarrow> nat list" where
  "select_loop validIdx numSamples step j smp =
     (if j < length validIdx \<and> int (length smp) < numSamples
      then select_loop validIdx numSamples step (j + step) (smp @ [validIdx ! j])
      else smp)"
  by pat_completeness auto
termination
  by (relation "measure (\<lambda>(validIdx, numSamples, step, j, smp). nat (numSamples - int (length smp)))")
     auto

text \<open>
  \<open>Math.max(1, Math.floor(validIdx.length / numSamples))\<close>. For \<open>numSamples = 0\<close> the
  source's step is \<open>Infinity\<close> and the value below is \<open>1\<close>; the loop above does not
  run then, so the step is never used.
\<close>

definition sample_step :: "nat \<Rightarrow> int \<Rightarrow> nat" where
  "sample_step len numSamples = nat (max 1 (int len div numSamples))"

text \<open>The third loop, over the selected indices, with the accumulators \<open>sqsum\<close> and
  \<open>count\<close>.\<close>

fun residual_loop ::
  "jsnum list \<Rightarrow> orbital_elements \<Rightarrow> jsval list \<Rightarrow> jsval list \<Rightarrow> jsval list
     \<Rightarrow> nat list \<Rightarrow> jsnum \<times> nat \<Rightarrow> jsnum \<times> nat" where
  "residual_loop tms el xs ys zs [] acc = acc"
| "residual_loop tms el xs ys zs (idx # rest) (sqsum, count) =
     (let jd = tget tms idx;
          (px, py, pz) = elementsToPosition (toNumber (el_a_AU el)) (toNumber (el_e el))
                           (toNumber (el_i_deg el)) (Fin 0) (Fin 0) (Fin 0) (Fin 2451545) jd;
          dx = jsub (or_zero (aget xs idx)) px;
          dy = jsub (or_zero (aget ys idx)) py;
          dz = jsub (or_zero (aget zs idx)) pz
      in residual_loop tms el xs ys zs rest
           (jadd sqsum (jadd (jadd (jmul dx dx) (jmul dy dy)) (jmul dz dz)), count + 1))"

definition crossValidateElements ::
  "'s scene_scheme \<Rightarrow> 'o obj_scheme \<Rightarrow> int \<Rightarrow> validation option" where
  "crossValidateElements sc ob numSamples =
     (case elements ob of
        None \<Rightarrow> None
      | Some el \<Rightarrow>
          if \<not> truthy (el_a_AU el) \<or> el_e el = Undefined \<or> el_i_deg el = Undefined
          then None
          else
            (let tms = times_jd sc;
                 validIdx = validIdx_of tms (obj_x ob) (obj_y ob)
             in if length validIdx < 3 then None
                else
                  (let step = sample_step (length validIdx) numSamples;
                       smp = select_loop validIdx numSamples step 0 [];
                       (sqsum, count) =
                          residual_loop tms el (obj_x ob) (obj_y ob) (obj_z ob) smp (Fin 0, 0)
                   in if count = 0 then None
                      else Some \<lparr>rms_km = jsqrt (jdiv sqsum (Fin (real count))),
                                 samples = count\<rparr>)))"

text \<open>The squared residual the body of the third loop adds for one index.\<close>

definition sq_residual ::
  "jsnum list \<Rightarrow> orbital_elements \<Rightarrow> jsval list \<Rightarrow> jsval list \<Rightarrow> jsval list \<Rightarrow> nat \<Rightarrow> jsnum" where
  "sq_residual tms el xs ys zs idx =
     (let (px, py, pz) = elementsToPosition (toNumber (el_a_AU el)) (toNumber (el_e el))
                           (toNumber (el_i_deg el)) (Fin 0) (Fin 0) (Fin 0) (Fin 2451545)
                           (tget tms idx);
          dx = jsub (or_zero (aget xs idx)) px;
          dy = jsub (or_zero (aget ys idx)) py;
          dz = jsub (or_zero (aget zs idx)) pz
      in jadd (jadd (jmul dx dx) (jmul dy dy)) (jmul dz dz))"

section \<open>Cross-validation on the heap\<close>

text \<open>
  The same function with its arrays where JavaScript keeps them: the elements of the object,
  its coordinate arrays and the time grid are cells of a heap that the object and the scene
  refer to, and the arrays \<open>validIdx\<close> and \<open>samples\<close> are cells the function allocates
  and pushes to. The function returns its result and the heap it leaves.
\<close>

datatype cell =
  Elements orbital_elements | Coords "jsval list" | Times "jsnum list" | Indices "nat list"

text \<open>The addresses below \<open>next_addr\<close> are allocated.\<close>

record heap =
  cells :: "nat \<Rightarrow> cell option"
  next_addr :: nat

text \<open>An object and the scene, as references into the heap.\<close>

record obj_ref =
  ref_elements :: "nat option"
  ref_x :: nat
  ref_y :: nat
  ref_z :: nat

record scene_ref =
  ref_times :: nat

definition elements_at :: "heap \<Rightarrow> nat option \<Rightarrow> orbital_elements option" where
  "elements_at h r =
     (case r of None \<Rightarrow> None
      | Some a \<Rightarrow> (case cells h a of Some (Elements el) \<Rightarrow> Some el | _ \<Rightarrow> None))"

definition coords_at :: "heap \<Rightarrow> nat \<Rightarrow> jsval list" where
  "coords_at h a = (case cells h a of Some (Coords xs) \<Rightarrow> xs | _ \<Rightarrow> [])"

definition times_at :: "heap \<Rightarrow> nat \<Rightarrow> jsnum list" where
  "times_at h a = (case cells h a of Some (Times ts) \<Rightarrow> ts | _ \<Rightarrow> [])"

definition indices_at :: "heap \<Rightarrow> nat \<Rightarrow> nat list" where
  "indices_at h a = (case cells h a of Some (Indices xs) \<Rightarrow> xs | _ \<Rightarrow> [])"

text \<open>\<open>[]\<close> allocates an empty array at the next address; \<open>push\<close> appends to one of the
  arrays so created.\<close>

definition new_array :: "heap \<Rightarrow> nat \<times> heap" where
  "new_array h =
     (next_addr h,
      \<lparr>cells = (cells h)(next_addr h \<mapsto> Indices []), next_addr = Suc (next_addr h)\<rparr>)"

definition push :: "heap \<Rightarrow> nat \<Rightarrow> nat \<Rightarrow> heap" where
  "push h a i = h\<lparr>cells := (cells h)(a \<mapsto> Indices (indices_at h a @ [i]))\<rparr>"

text \<open>
  The first and the second loop, reading and writing the heap. The third loop writes to
  local variables only; it reads the elements, the coordinates and the grid from the heap
  that the second loop left.
\<close>

fun fill_validIdx :: "obj_ref \<Rightarrow> nat \<Rightarrow> nat list \<Rightarrow> heap \<Rightarrow> heap" where
  "fill_validIdx ob va [] h = h"
| "fill_validIdx ob va (i # rest) h =
     fill_validIdx ob va rest
       (if aget (coords_at h (ref_x ob)) i \<noteq> Null \<and> aget (coords_at h (ref_y ob)) i \<noteq> Null
        then push h va i else h)"

function select_on_heap :: "nat \<Rightarrow> nat \<Rightarrow> int \<Rightarrow> nat \<Rightarrow> nat \<Rightarrow> heap \<Rightarrow> heap" where
  "select_on_heap va sa numSamples step j h =
     (if j < length (indices_at h va) \<and> int (length (indices_at h sa)) < numSamples
      then select_on_heap va sa numSamples step (j + step) (push h sa (indices_at h va ! j))
      else h)"
  by pat_completeness auto
termination
  by (relation "measure (\<lambda>(va, sa, numSamples, step, j, h).
                  nat (numSamples - int (length (indices_at h sa))))")
     (auto simp add: push_def indices_at_def)

definition crossValidate_on_heap ::
  "scene_ref \<Rightarrow> obj_ref \<Rightarrow> int \<Rightarrow> heap \<Rightarrow> validation option \<times> heap" where
  "crossValidate_on_heap sc ob numSamples h =
     (case elements_at h (ref_elements ob) of
        None \<Rightarrow> (None, h)
      | Some el \<Rightarrow>
          if \<not> truthy (el_a_AU el) \<or> el_e el = Undefined \<or> el_i_deg el = Undefined
          then (None, h)
          else
            (let (va, h1) = new_array h;
                 h2 = fill_validIdx ob va [0..<length (times_at h1 (ref_times sc))] h1
             in if length (indices_at h2 va) < 3 then (None, h2)
                else
                  (let (sa, h3) = new_array h2;
                       step = sample_step (length (indices_at h3 va)) numSamples;
                       h4 = select_on_heap va sa numSamples step 0 h3;
                       (sqsum, count) =
                          (case elements_at h4 (ref_elements ob) of
                             None \<Rightarrow> (Fin 0, 0)
                           | Some el' \<Rightarrow>
                               residual_loop (times_at h4 (ref_times sc)) el'
                                 (coords_at h4 (ref_x ob)) (coords_at h4 (ref_y ob))
                                 (coords_at h4 (ref_z ob)) (indices_at h4 sa) (Fin 0, 0))
                   in (if count = 0 then None
                       else Some \<lparr>rms_km = jsqrt (jdiv sqsum (Fin (real count))),
                                  samples = count\<rparr>, h4))))"

text \<open>The scene and the object that a heap holds behind the references.\<close>

definition scene_of :: "heap \<Rightarrow> scene_ref \<Rightarrow> scene" where
  "scene_of h sc = \<lparr>times_jd = times_at h (ref_times sc)\<rparr>"

definition obj_of :: "heap \<Rightarrow> string \<Rightarrow> obj_ref \<Rightarrow> obj" where
  "obj_of h name ob =
     \<lparr>obj_id = name, elements = elements_at h (ref_elements ob),
      obj_x = coords_at h (ref_x ob), obj_y = coords_at h (ref_y ob),
      obj_z = coords_at h (ref_z ob)\<rparr>"

text \<open>The references of the scene and of the object point to allocated cells.\<close>

definition allocated :: "heap \<Rightarrow> scene_ref \<Rightarrow> obj_ref \<Rightarrow> bool" where
  "allocated h sc ob =
     (ref_times sc < next_addr h \<and> ref_x ob < next_addr h \<and> ref_y ob < next_addr h
      \<and> ref_z ob < next_addr h
      \<and> (case ref_elements ob of None \<Rightarrow> True | Some a \<Rightarrow> a < next_addr h))"

text \<open>Two heaps agree on the cells below an address, and the second allocated no less.\<close>

definition same_below :: "nat \<Rightarrow> heap \<Rightarrow> heap \<Rightarrow> bool" where
  "same_below k h h' = ((\<forall>a<k. cells h' a = cells h a) \<and> next_addr h \<le> next_addr h')"

section \<open>The two halves of \<open>elementsToPosition\<close>\<close>

text \<open>
  The statements of \<open>elementsToPosition\<close> before the call of the solver, which compute the
  mean anomaly at the target date, and those after it, which turn the eccentric anomaly
  into a position.
\<close>

definition mean_anomaly_at :: "jsnum \<Rightarrow> jsnum \<Rightarrow> jsnum \<Rightarrow> jsnum option \<Rightarrow> jsnum" where
  "mean_anomaly_at a_AU M_deg epochJD targetJD =
     (let a_km = jmul a_AU (Fin AU_KM);
          n = jsqrt (jdiv (Fin MU_SUN) (jmul (jmul a_km a_km) a_km));
          M0 = jdiv (jmul M_deg PI) (Fin 180)
      in case targetJD of
           None \<Rightarrow> M0
         | Some t \<Rightarrow> (let dt = jmul (jsub t epochJD) (Fin 86400) in jadd M0 (jmul n dt)))"

definition position_at_anomaly ::
  "jsnum \<Rightarrow> jsnum \<Rightarrow> jsnum \<Rightarrow> jsnum \<Rightarrow> jsnum \<Rightarrow> jsnum \<Rightarrow> jsnum \<times> jsnum \<times> jsnum" where
  "position_at_anomaly a_AU e i_deg Omega_deg omega_deg E =
     (let a_km = jmul a_AU (Fin AU_KM);
          i = jdiv (jmul i_deg PI) (Fin 180);
          Omega = jdiv (jmul Omega_deg PI) (Fin 180);
          omega = jdiv (jmul omega_deg PI) (Fin 180);
          cosE = jcos E;
          sinE = jsin E;
          sqrt1e2 = jsqrt (jsub (Fin 1) (jmul e e));
          nu = jatan2 (jmul sqrt1e2 sinE) (jsub cosE e);
          r = jmul a_km (jsub (Fin 1) (jmul e cosE));
          x_pf = jmul r (jcos nu);
          y_pf = jmul r (jsin nu);
          z_pf = Fin 0;
          cosO = jcos Omega; sinO = jsin Omega;
          cosi = jcos i; sini = jsin i;
          cosw = jcos omega; sinw = jsin omega;
          r11 = jsub (jmul cosO cosw) (jmul (jmul sinO sinw) cosi);
          r12 = jsub (jmul (jneg cosO) sinw) (jmul (jmul sinO cosw) cosi);
          r13 = jmul sinO sini;
          r21 = jadd (jmul sinO cosw) (jmul (jmul cosO sinw) cosi);
          r22 = jadd (jmul (jneg sinO) sinw) (jmul (jmul cosO cosw) cosi);
          r23 = jmul (jneg cosO) sini;
          r31 = jmul sinw sini;
          r32 = jmul cosw sini;
          r33 = cosi;
          x = jadd (jadd (jmul r11 x_pf) (jmul r12 y_pf)) (jmul r13 z_pf);
          y = jadd (jadd (jmul r21 x_pf) (jmul r22 y_pf)) (jmul r23 z_pf);
          z = jadd (jadd (jmul r31 x_pf) (jmul r32 y_pf)) (jmul r33 z_pf)
      in (x, y, z))"

section \<open>What the specification says of the position\<close>

text \<open>
  The reference pipeline over the reals. \<open>Rz\<close> and \<open>Rx\<close> are the matrices of a rotation
  of the coordinate frame about the \<open>z\<close> and the \<open>x\<close> axis, the convention under which the
  composition \<open>Rz(-\<Omega>) Rx(-i) Rz(-\<omega>)\<close> takes perifocal to ecliptic coordinates.
\<close>

type_synonym vec3 = "real \<times> real \<times> real"

definition deg_to_rad :: "real \<Rightarrow> real" where
  "deg_to_rad d = d * pi / 180"

definition reference_mean_anomaly :: "real \<Rightarrow> real \<Rightarrow> real \<Rightarrow> real option \<Rightarrow> real" where
  "reference_mean_anomaly a_km M0 epochJD targetJD =
     (case targetJD of
        None \<Rightarrow> M0
      | Some t \<Rightarrow> M0 + sqrt (MU_SUN / a_km ^ 3) * ((t - epochJD) * 86400))"

fun Rz :: "real \<Rightarrow> vec3 \<Rightarrow> vec3" where
  "Rz \<theta> (x, y, z) = (cos \<theta> * x + sin \<theta> * y, - sin \<theta> * x + cos \<theta> * y, z)"

fun Rx :: "real \<Rightarrow> vec3 \<Rightarrow> vec3" where
  "Rx \<theta> (x, y, z) = (x, cos \<theta> * y + sin \<theta> * z, - sin \<theta> * y + cos \<theta> * z)"

definition reference_position :: "real \<Rightarrow> real \<Rightarrow> real \<Rightarrow> real \<Rightarrow> real \<Rightarrow> real \<Rightarrow> vec3" where
  "reference_position a_km e i Omega omega E =
     (let nu = atan2 (sqrt (1 - e\<^sup>2) * sin E) (cos E - e);
          r = a_km * (1 - e * cos E)
      in Rz (- Omega) (Rx (- i) (Rz (- omega) (r * cos nu, r * sin nu, 0))))"

fun fin3 :: "vec3 \<Rightarrow> jsnum \<times> jsnum \<times> jsnum" where
  "fin3 (x, y, z) = (Fin x, Fin y, Fin z)"

fun vec_norm :: "vec3 \<Rightarrow> real" where
  "vec_norm (x, y, z) = sqrt (x\<^sup>2 + y\<^sup>2 + z\<^sup>2)"

definition orbital_period_days :: "real \<Rightarrow> real" where
  "orbital_period_days a = 2 * pi / sqrt (MU_SUN / (a * AU_KM) ^ 3) / 86400"

section \<open>What the specification says of the solver\<close>

text \<open>
  Kepler's equation as \<open>f(E) = E - e sin E - M\<close> with derivative \<open>f'(E) = 1 - e cos E\<close>,
  the Newton--Raphson update \<open>E - f(E) / f'(E)\<close>, its step \<open>\<Delta>E = - f(E) / f'(E)\<close>, and
  the stopping test \<open>|\<Delta>E| < tolerance\<close>, in the arithmetic of the program.
\<close>

definition kepler_f :: "jsnum \<Rightarrow> jsnum \<Rightarrow> jsnum \<Rightarrow> jsnum" where
  "kepler_f M e E = jsub (jsub E (jmul e (jsin E))) M"

definition kepler_fp :: "jsnum \<Rightarrow> jsnum \<Rightarrow> jsnum" where
  "kepler_fp e E = jsub (Fin 1) (jmul e (jcos E))"

definition newton_update :: "jsnum \<Rightarrow> jsnum \<Rightarrow> jsnum \<Rightarrow> jsnum" where
  "newton_update M e E = jsub E (jdiv (kepler_f M e E) (kepler_fp e E))"

definition newton_delta :: "jsnum \<Rightarrow> jsnum \<Rightarrow> jsnum \<Rightarrow> jsnum" where
  "newton_delta M e E = jneg (jdiv (kepler_f M e E) (kepler_fp e E))"

definition converged :: "jsnum \<Rightarrow> jsnum \<Rightarrow> jsnum \<Rightarrow> jsnum \<Rightarrow> bool" where
  "converged M e tol E = jlt (jabs (newton_delta M e E)) tol"

section \<open>What the specification says of the selection\<close>

text \<open>
  The positions in the list of valid indices the specification describes: multiples of the
  stride \<open>max(1, floor(validCount / sampleCount))\<close>, at most \<open>sampleCount\<close> of them.
\<close>

definition selected_positions :: "nat \<Rightarrow> int \<Rightarrow> nat list" where
  "selected_positions len numSamples =
     map (\<lambda>k. k * sample_step len numSamples) [0..<min (nat numSamples) len]"

text \<open>
  A selection spaced by \<open>step\<close> spans the whole range of \<open>len\<close> valid samples when it
  starts at the first of them and fewer than \<open>step\<close> of them follow the last selected one.
\<close>

definition spans_whole_range :: "nat \<Rightarrow> nat \<Rightarrow> nat list \<Rightarrow> bool" where
  "spans_whole_range len step ps = (ps \<noteq> [] \<and> hd ps = 0 \<and> len - last ps \<le> step)"

section \<open>What the specification says of the cross-validation\<close>

text \<open>
  A recorded coordinate with an absent value read as \<open>0\<close>, the recorded position at a grid
  index, the squared Euclidean distance of two positions, a sum accumulated from \<open>0\<close>, and
  the position propagated from the elements with \<open>\<Omega> = \<omega> = M\<^sub>0 = 0\<close> and the epoch
  \<open>2451545.0\<close>.
\<close>

definition recorded_coord :: "jsval \<Rightarrow> jsnum" where
  "recorded_coord v = (case v of Number c \<Rightarrow> c | _ \<Rightarrow> Fin 0)"

definition recorded_position :: "'o obj_scheme \<Rightarrow> nat \<Rightarrow> jsnum \<times> jsnum \<times> jsnum" where
  "recorded_position ob idx =
     (recorded_coord (aget (obj_x ob) idx), recorded_coord (aget (obj_y ob) idx),
      recorded_coord (aget (obj_z ob) idx))"

fun sq_distance :: "jsnum \<times> jsnum \<times> jsnum \<Rightarrow> jsnum \<times> jsnum \<times> jsnum \<Rightarrow> jsnum" where
  "sq_distance (x1, y1, z1) (x2, y2, z2) =
     jadd (jadd (jmul (jsub x1 x2) (jsub x1 x2)) (jmul (jsub y1 y2) (jsub y1 y2)))
          (jmul (jsub z1 z2) (jsub z1 z2))"

definition js_sum :: "jsnum list \<Rightarrow> jsnum" where
  "js_sum vs = foldl jadd (Fin 0) vs"

definition propagated_position :: "orbital_elements \<Rightarrow> jsnum \<Rightarrow> jsnum \<times> jsnum \<times> jsnum" where
  "propagated_position el jd =
     elementsToPosition (toNumber (el_a_AU el)) (toNumber (el_e el)) (toNumber (el_i_deg el))
       (Fin 0) (Fin 0) (Fin 0) (Fin 2451545) (Some jd)"

text \<open>
  The data model: elements with \<open>a > 0\<close>, \<open>0 \<le> e < 1\<close> and a finite inclination; finite
  grid times; coordinates that are finite numbers or absent.
\<close>

fun is_finite :: "jsnum \<Rightarrow> bool" where
  "is_finite (Fin x) = True"
| "is_finite _ = False"

fun finite_coord :: "jsval \<Rightarrow> bool" where
  "finite_coord (Number c) = is_finite c"
| "finite_coord Null = True"
| "finite_coord Undefined = False"

fun valid_values :: "jsval \<Rightarrow> jsval \<Rightarrow> jsval \<Rightarrow> bool" where
  "valid_values (Number (Fin a)) (Number (Fin e)) (Number (Fin i)) = (0 < a \<and> 0 \<le> e \<and> e < 1)"
| "valid_values _ _ _ = False"

definition valid_elements :: "orbital_elements \<Rightarrow> bool" where
  "valid_elements el = valid_values (el_a_AU el) (el_e el) (el_i_deg el)"

definition well_formed_input :: "'s scene_scheme \<Rightarrow> 'o obj_scheme \<Rightarrow> bool" where
  "well_formed_input sc ob =
     ((case elements ob of None \<Rightarrow> False | Some el \<Rightarrow> valid_elements el)
      \<and> list_all is_finite (times_jd sc)
      \<and> list_all finite_coord (obj_x ob) \<and> list_all finite_coord (obj_y ob)
      \<and> list_all finite_coord (obj_z ob))"

section \<open>A small scene\<close>

text \<open>Three grid times, and an object with a position at each of them and no \<open>z\<close>.\<close>

definition example_scene :: scene where
  "example_scene = \<lparr>times_jd = [Fin 2451545, Fin 2451546, Fin 2451547]\<rparr>"

definition example_obj :: "string \<Rightarrow> jsval \<Rightarrow> jsval \<Rightarrow> obj" where
  "example_obj name a e =
     \<lparr>obj_id = name,
      elements = Some \<lparr>el_a_AU = a, el_e = e, el_i_deg = Number (Fin 0)\<rparr>,
      obj_x = [Number (Fin 1), Number (Fin 2), Number (Fin 3)],
      obj_y = [Number (Fin 4), Number (Fin 5), Number (Fin 6)],
      obj_z = [Null, Null, Null]\<rparr>"

text \<open>The same object and scene in a heap of five cells.\<close>

definition example_heap :: heap where
  "example_heap =
     \<lparr>cells = [0 \<mapsto> Elements \<lparr>el_a_AU = Number (Fin 1), el_e = Number (Fin 0),
                                 el_i_deg = Number (Fin 0)\<rparr>,
               1 \<mapsto> Coords [Number (Fin 1), Number (Fin 2), Number (Fin 3)],
               2 \<mapsto> Coords [Number (Fin 4), Number (Fin 5), Number (Fin 6)],
               3 \<mapsto> Coords [Null, Null, Null],
               4 \<mapsto> Times [Fin 2451545, Fin 2451546, Fin 2451547]],
      next_addr = 5\<rparr>"

definition example_obj_ref :: obj_ref where
  "example_obj_ref = \<lparr>ref_elements = Some 0, ref_x = 1, ref_y = 2, ref_z = 3\<rparr>"

definition example_scene_ref :: scene_ref where
  "example_scene_ref = \<lparr>ref_times = 4\<rparr>"

section \<open>The loops in closed form\<close>

declare select_loop.simps [simp del]
declare kepler_loop.simps [simp del]
declare select_on_heap.simps [simp del]

lemma ceil_div_step:
  fixes s d :: nat
  assumes "0 < s" "0 < d"
  shows "(d + s - 1) div s = Suc ((d - s + s - 1) div s)"
proof (cases "s \<le> d")
  case True
  then have "d + s - 1 = (d - s + s - 1) + s" using assms by simp
  then have "(d + s - 1) div s = ((d - s + s - 1) + s) div s" by simp
  also have "\<dots> = (d - s + s - 1) div s + 1"
    by (rule div_add_self2) (use assms in simp)
  finally show ?thesis by (simp only: Suc_eq_plus1)
next
  case False
  then have z: "(d - s + s - 1) div s = 0" using assms by simp
  have "d + s - 1 = (d - 1) + s" using assms by simp
  then have "(d + s - 1) div s = ((d - 1) + s) div s" by simp
  also have "\<dots> = (d - 1) div s + 1"
    by (rule div_add_self2) (use assms in simp)
  also have "(d - 1) div s = 0" using False assms by simp
  finally show ?thesis using z by simp
qed

lemma select_loop_closed:
  "0 < step \<Longrightarrow>
   select_loop v n step j acc =
     acc @ map (\<lambda>k. v ! (j + k * step))
             [0..<min (nat (n - int (length acc))) ((length v - j + step - 1) div step)]"
proof (induction v n step j acc rule: select_loop.induct)
  case (1 v n step j acc)
  show ?case
  proof (cases "j < length v \<and> int (length acc) < n")
    case True
    let ?m = "min (nat (n - int (length acc))) ((length v - j + step - 1) div step)"
    let ?m' = "min (nat (n - int (length (acc @ [v ! j])))) ((length v - (j + step) + step - 1) div step)"
    have "(length v - j + step - 1) div step = Suc ((length v - j - step + step - 1) div step)"
      using ceil_div_step[of step "length v - j"] True "1.prems" by simp
    then have a: "(length v - j + step - 1) div step = Suc ((length v - (j + step) + step - 1) div step)"
      by (simp add: diff_diff_left)
    have b: "nat (n - int (length acc)) = Suc (nat (n - int (length (acc @ [v ! j]))))"
    proof -
      have "length (acc @ [v ! j]) = Suc (length acc)" by simp
      then show ?thesis using True by linarith
    qed
    have m: "?m = Suc ?m'" using a b by simp
    have "select_loop v n step j acc = select_loop v n step (j + step) (acc @ [v ! j])"
      using True by (subst select_loop.simps) simp
    also have "\<dots> = (acc @ [v ! j]) @ map (\<lambda>k. v ! (j + step + k * step)) [0..<?m']"
      using "1.IH"[OF True "1.prems"] by simp
    also have "\<dots> = acc @ map (\<lambda>k. v ! (j + k * step)) [0..<Suc ?m']"
    proof -
      have "[0..<Suc ?m'] = 0 # map Suc [0..<?m']"
        by (simp only: upt_conv_Cons[OF zero_less_Suc] map_Suc_upt)
      then show ?thesis by (simp add: comp_def ac_simps del: upt_Suc)
    qed
    finally show ?thesis by (simp only: m)
  next
    case False
    have "nat (n - int (length acc)) = 0 \<or> (length v - j + step - 1) div step = 0"
    proof (cases "j < length v")
      case True
      with False show ?thesis by simp
    next
      case False
      then have "length v - j + step - 1 < step" using \<open>0 < step\<close> by simp
      then show ?thesis by simp
    qed
    then have "min (nat (n - int (length acc))) ((length v - j + step - 1) div step) = 0"
      by (rule disjE) simp_all
    moreover have "select_loop v n step j acc = acc"
      using False by (subst select_loop.simps) auto
    ultimately show ?thesis by simp
  qed
qed


lemma sample_step_pos: "0 < sample_step len n"
  by (simp add: sample_step_def)

lemma sample_step_nat: "1 \<le> n \<Longrightarrow> sample_step len n = max 1 (len div nat n)"
proof -
  assume n: "1 \<le> n"
  then have "int len div n = int (len div nat n)"
    by (simp add: zdiv_int)
  then show ?thesis by (simp add: sample_step_def max_def)
qed

lemma select_count:
  assumes "1 \<le> n"
  shows "min (nat n) ((len + sample_step len n - 1) div sample_step len n) = min (nat n) len"
proof (cases "nat n \<le> len")
  case True
  let ?s = "len div nat n"
  have npos: "0 < nat n" using assms by simp
  have s1: "1 \<le> ?s" using True npos by (simp add: Suc_le_eq div_greater_zero_iff)
  then have st: "sample_step len n = ?s" using sample_step_nat[OF assms] by simp
  have "nat n * ?s \<le> len" by (simp add: mult.commute)
  then have "nat n * ?s \<le> len + ?s - 1" using s1 by linarith
  then have "nat n \<le> (len + ?s - 1) div ?s"
    using s1 by (simp add: less_eq_div_iff_mult_less_eq mult.commute)
  then show ?thesis using True st by simp
next
  case False
  then have "len div nat n = 0" by simp
  then have "sample_step len n = 1" using sample_step_nat[OF assms] by simp
  then show ?thesis by simp
qed

lemma select_loop_positions:
  assumes "1 \<le> n"
  shows "select_loop v n (sample_step (length v) n) 0 [] =
           map (\<lambda>k. v ! (k * sample_step (length v) n)) [0..<min (nat n) (length v)]"
  using select_loop_closed[OF sample_step_pos, where v = v and n = n and j = 0 and acc = "[]" and len1 = "length v" and n1 = n] select_count[OF assms, of "length v"]
  by simp


lemma residual_loop_eq:
  "residual_loop tms el xs ys zs smp (s, c) =
     (foldl jadd s (map (sq_residual tms el xs ys zs) smp), c + length smp)"
proof (induction smp arbitrary: s c)
  case Nil
  show ?case by simp
next
  case (Cons idx rest)
  show ?case
    by (simp add: Cons.IH sq_residual_def Let_def split: prod.splits)
qed

lemma select_loop_length:
  assumes "1 \<le> n"
  shows "length (select_loop v n (sample_step (length v) n) 0 []) = min (nat n) (length v)"
  by (simp add: select_loop_positions[OF assms])

lemma crossValidate_accept:
  assumes "elements ob = Some el" "truthy (el_a_AU el)" "el_e el \<noteq> Undefined"
    "el_i_deg el \<noteq> Undefined"
    "3 \<le> length (validIdx_of (times_jd sc) (obj_x ob) (obj_y ob))" "1 \<le> n"
  shows "crossValidateElements sc ob n =
    (let v = validIdx_of (times_jd sc) (obj_x ob) (obj_y ob);
         smp = select_loop v n (sample_step (length v) n) 0 []
     in Some \<lparr>rms_km = jsqrt (jdiv (foldl jadd (Fin 0)
                 (map (sq_residual (times_jd sc) el (obj_x ob) (obj_y ob) (obj_z ob)) smp))
                 (Fin (real (length smp)))),
              samples = length smp\<rparr>)"
proof -
  let ?v = "validIdx_of (times_jd sc) (obj_x ob) (obj_y ob)"
  let ?smp = "select_loop ?v n (sample_step (length ?v) n) 0 []"
  have "length ?smp = min (nat n) (length ?v)"
    by (rule select_loop_length[OF assms(6)])
  moreover have "0 < length ?v" using assms(5) by linarith
  moreover have "0 < nat n" using assms(6) by linarith
  ultimately have "0 < length ?smp" by simp
  then have ne: "?smp \<noteq> []" by simp
  have lt: "\<not> length ?v < 3" using assms(5) by simp
  show ?thesis
    using assms(1-4) ne lt
    by (simp add: crossValidateElements_def Let_def residual_loop_eq)
qed

lemma crossValidate_None_iff:
  "crossValidateElements sc ob n = None \<longleftrightarrow>
     (case elements ob of None \<Rightarrow> True
      | Some el \<Rightarrow> \<not> truthy (el_a_AU el) \<or> el_e el = Undefined \<or> el_i_deg el = Undefined
          \<or> length (validIdx_of (times_jd sc) (obj_x ob) (obj_y ob)) < 3 \<or> n \<le> 0)"
proof (cases "elements ob")
  case None
  then show ?thesis by (simp add: crossValidateElements_def)
next
  case (Some el)
  show ?thesis
  proof (cases "truthy (el_a_AU el) \<and> el_e el \<noteq> Undefined \<and> el_i_deg el \<noteq> Undefined
      \<and> 3 \<le> length (validIdx_of (times_jd sc) (obj_x ob) (obj_y ob))")
    case acc: True
    show ?thesis
    proof (cases "1 \<le> n")
      case True
      then show ?thesis
        using crossValidate_accept[of ob el sc n] Some acc by (simp add: Let_def)
    next
      case False
      then have "select_loop (validIdx_of (times_jd sc) (obj_x ob) (obj_y ob)) n
           (sample_step (length (validIdx_of (times_jd sc) (obj_x ob) (obj_y ob))) n) 0 [] = []"
        by (subst select_loop.simps) simp
      then show ?thesis using Some acc False
        by (simp add: crossValidateElements_def Let_def)
    qed
  next
    case False
    then show ?thesis using Some
      by (auto simp add: crossValidateElements_def Let_def)
  qed
qed


section \<open>Cross-validation: when no result is returned\<close>

lemma validIdx_example:
  "validIdx_of (times_jd example_scene) (obj_x (example_obj name a e)) (obj_y (example_obj name a e))
     = [0, 1, 2]"
  by (simp add: validIdx_of_def example_scene_def example_obj_def aget_def upt_rec)

text \<open>
  C10: an object whose elements carry a semi-major axis equal to \<open>0\<close> or \<open>NaN\<close> gets no
  result, however many valid samples it has, because the completeness check tests the axis
  for truthiness; an eccentricity and an inclination equal to \<open>0\<close> are accepted, because
  they are tested against \<open>undefined\<close> only.
\<close>

theorem crossValidate_falsy_axis:
  "(elements ob = Some el \<and> (el_a_AU el = Number (Fin 0) \<or> el_a_AU el = Number NaN)
      \<longrightarrow> crossValidateElements sc ob n = None)
   \<and> (elements ob = Some el \<and> truthy (el_a_AU el)
        \<and> el_e el = Number (Fin 0) \<and> el_i_deg el = Number (Fin 0)
        \<and> 3 \<le> length (validIdx_of (times_jd sc) (obj_x ob) (obj_y ob)) \<and> 1 \<le> n
      \<longrightarrow> crossValidateElements sc ob n \<noteq> None)"
  by (auto simp add: crossValidate_None_iff)

theorem crossValidate_falsy_axis_witness:
  "crossValidateElements example_scene (example_obj ''Ceres'' (Number (Fin 0)) (Number (Fin 0))) 10 = None
   \<and> crossValidateElements example_scene (example_obj ''Ceres'' (Number NaN) (Number (Fin 0))) 10 = None
   \<and> crossValidateElements example_scene (example_obj ''Ceres'' (Number (Fin 1)) (Number (Fin 0))) 10 \<noteq> None"
proof -
  let ?el = "\<lambda>a. \<lparr>el_a_AU = a, el_e = Number (Fin 0), el_i_deg = Number (Fin 0)\<rparr>"
  have e: "elements (example_obj ''Ceres'' a (Number (Fin 0))) = Some (?el a)" for a
    by (simp add: example_obj_def)
  have v: "3 \<le> length (validIdx_of (times_jd example_scene) (obj_x (example_obj ''Ceres'' a (Number (Fin 0))))
                (obj_y (example_obj ''Ceres'' a (Number (Fin 0)))))" for a
    by (simp add: validIdx_example)
  show ?thesis
    using crossValidate_falsy_axis[of "example_obj ''Ceres'' (Number (Fin 0)) (Number (Fin 0))" "?el (Number (Fin 0))" example_scene 10]
      crossValidate_falsy_axis[of "example_obj ''Ceres'' (Number NaN) (Number (Fin 0))" "?el (Number NaN)" example_scene 10]
      crossValidate_falsy_axis[of "example_obj ''Ceres'' (Number (Fin 1)) (Number (Fin 0))" "?el (Number (Fin 1))" example_scene 10]
      e v
    by simp
qed

section \<open>Cross-validation: which samples are selected\<close>

lemma position_in_range:
  assumes "1 \<le> n" "k < min (nat n) len"
  shows "k * sample_step len n < len"
proof (cases "nat n \<le> len")
  case True
  let ?s = "len div nat n"
  have npos: "0 < nat n" using assms by simp
  have s1: "1 \<le> ?s" using True npos by (simp add: Suc_le_eq div_greater_zero_iff)
  then have st: "sample_step len n = ?s" using sample_step_nat[OF assms(1)] by simp
  have "Suc k \<le> nat n" using assms(2) by simp
  then have "Suc k * ?s \<le> nat n * ?s" by (rule mult_le_mono1)
  also have "\<dots> \<le> len" by (simp add: mult.commute)
  finally have "k * ?s + ?s \<le> len" by simp
  then have "k * ?s < len" using s1 by linarith
  then show ?thesis by (simp only: st)
next
  case False
  then have "len div nat n = 0" by simp
  then have "sample_step len n = 1" using sample_step_nat[OF assms(1)] by simp
  then show ?thesis using assms(2) by simp
qed

lemma validIdx_sorted: "sorted_wrt (<) (validIdx_of tms xs ys)"
  unfolding validIdx_of_def by (rule sorted_wrt_filter) simp

lemma validIdx_bound: "i \<in> set (validIdx_of tms xs ys) \<Longrightarrow> i < length tms"
  by (simp add: validIdx_of_def)

lemma selected_positions_sorted: "sorted_wrt (<) (selected_positions len n)"
  unfolding selected_positions_def
  by (simp add: sorted_wrt_map sorted_wrt_iff_nth_less sample_step_pos)

lemma selection_sorted:
  assumes "1 \<le> n" "sorted_wrt (<) v"
  shows "sorted_wrt (<) (map ((!) v) (selected_positions (length v) n))"
proof -
  have "sorted_wrt (\<lambda>p q. v ! p < v ! q) (selected_positions (length v) n)"
  proof (rule sorted_wrt_mono_rel[OF _ selected_positions_sorted])
    fix p q
    assume p: "p \<in> set (selected_positions (length v) n)"
      and q: "q \<in> set (selected_positions (length v) n)" and "p < q"
    from q have "q < length v"
      using position_in_range[OF assms(1)] by (auto simp: selected_positions_def)
    then show "v ! p < v ! q"
      using assms(2) \<open>p < q\<close> by (simp add: sorted_wrt_iff_nth_less)
  qed
  then show ?thesis by (simp add: sorted_wrt_map)
qed

lemma spans_iff:
  assumes "1 \<le> n" "1 \<le> len"
  shows "spans_whole_range len (sample_step len n) (selected_positions len n)
           \<longleftrightarrow> len < nat n \<or> len mod nat n = 0"
proof -
  let ?m = "min (nat n) len"
  let ?s = "sample_step len n"
  have m: "0 < ?m" using assms by simp
  then obtain m' where m': "?m = Suc m'" by (cases ?m) simp_all
  have ne: "selected_positions len n \<noteq> []"
    using m by (simp add: selected_positions_def)
  have hd0: "hd (selected_positions len n) = 0"
    using m by (simp add: selected_positions_def hd_map upt_conv_Cons)
  have la: "last (selected_positions len n) = m' * ?s"
    unfolding selected_positions_def m' by (simp del: upt_Suc add: last_map)
  show ?thesis
  proof (cases "nat n \<le> len")
    case True
    have npos: "0 < nat n" using assms by simp
    have s1: "1 \<le> len div nat n" using True npos by (simp add: Suc_le_eq div_greater_zero_iff)
    then have st: "?s = len div nat n" using sample_step_nat[OF assms(1)] by simp
    have mm: "Suc m' = nat n" using m' True by simp
    have "len = nat n * (len div nat n) + len mod nat n" by simp
    then have "len = Suc m' * ?s + len mod nat n" using st mm by simp
    then have "len - m' * ?s = ?s + len mod nat n" by simp
    then show ?thesis using True ne hd0 la by (simp add: spans_whole_range_def)
  next
    case False
    then have "len div nat n = 0" by simp
    then have st: "?s = 1" using sample_step_nat[OF assms(1)] by simp
    have "Suc m' = len" using m' False by simp
    then have "len - m' * ?s = 1" using st by simp
    then show ?thesis using False ne hd0 la st by (simp add: spans_whole_range_def)
  qed
qed


lemma unreached_tail:
  assumes "1 \<le> n" and "nat n \<le> len"
  shows "len - Suc (last (selected_positions len n)) = sample_step len n + len mod nat n - 1"
proof -
  let ?s = "sample_step len n"
  have npos: "0 < nat n" using assms by simp
  then obtain m' where m': "nat n = Suc m'" by (cases "nat n") simp_all
  have mn: "min (nat n) len = Suc m'" using assms(2) m' by simp
  have la: "last (selected_positions len n) = m' * ?s"
    unfolding selected_positions_def mn by (simp del: upt_Suc add: last_map)
  have s1: "1 \<le> len div nat n" using assms(2) npos by (simp add: Suc_le_eq div_greater_zero_iff)
  then have st: "?s = len div nat n" using sample_step_nat[OF assms(1)] by simp
  have "len = nat n * (len div nat n) + len mod nat n" by simp
  then have "len = Suc m' * ?s + len mod nat n" using st m' by simp
  then have "len - m' * ?s = ?s + len mod nat n" by simp
  then show ?thesis using la by simp
qed

text \<open>
  C5, as the code has it: for at least 3 valid samples and \<open>sampleCount \<ge> 1\<close> the second
  loop selects the valid indices at the positions \<open>0, s, 2s, \<dots>\<close> with the stride
  \<open>s = max(1, floor(validCount / sampleCount))\<close>, exactly \<open>min(sampleCount, validCount)\<close>
  of them, in strictly increasing order. The selection spans the whole range of valid
  samples exactly when \<open>sampleCount\<close> exceeds \<open>validCount\<close> or divides it; for
  \<open>sampleCount \<le> validCount\<close> the valid samples after the last selected one number
  \<open>s + validCount mod sampleCount - 1\<close>. With
  \<open>sampleCount = 5\<close> and 1000 valid samples the positions are \<open>0, 200, 400, 600, 800\<close>.
\<close>

theorem sample_selection:
  assumes "v = validIdx_of tms xs ys" and "3 \<le> length v" and "1 \<le> n"
  shows "select_loop v n (sample_step (length v) n) 0 [] =
           map ((!) v) (selected_positions (length v) n)
       \<and> length (select_loop v n (sample_step (length v) n) 0 []) = min (nat n) (length v)
       \<and> sorted_wrt (<) (select_loop v n (sample_step (length v) n) 0 [])
       \<and> (spans_whole_range (length v) (sample_step (length v) n)
             (selected_positions (length v) n)
            \<longleftrightarrow> length v < nat n \<or> length v mod nat n = 0)
       \<and> (nat n \<le> length v \<longrightarrow>
             length v - Suc (last (selected_positions (length v) n)) =
               sample_step (length v) n + length v mod nat n - 1)"
proof -
  have sel: "select_loop v n (sample_step (length v) n) 0 [] =
           map ((!) v) (selected_positions (length v) n)"
    using select_loop_positions[OF assms(3), of v] by (simp add: selected_positions_def comp_def)
  have len: "length (selected_positions (length v) n) = min (nat n) (length v)"
    by (simp add: selected_positions_def)
  have srt: "sorted_wrt (<) (map ((!) v) (selected_positions (length v) n))"
    unfolding assms(1) by (rule selection_sorted[OF assms(3) validIdx_sorted])
  have "1 \<le> length v" using assms(2) by linarith
  then have sp: "spans_whole_range (length v) (sample_step (length v) n)
             (selected_positions (length v) n)
            \<longleftrightarrow> length v < nat n \<or> length v mod nat n = 0"
    by (rule spans_iff[OF assms(3)])
  have tl: "nat n \<le> length v \<longrightarrow>
             length v - Suc (last (selected_positions (length v) n)) =
               sample_step (length v) n + length v mod nat n - 1"
    using unreached_tail[OF assms(3)] by blast
  show ?thesis
    using sel len srt sp tl by simp
qed

text \<open>
  With 9 valid samples and \<open>sampleCount = 5\<close> the stride is \<open>1\<close> and the selection is the
  first five samples: the last four are not reached.
\<close>

theorem sample_selection_counterexample:
  "select_loop [0..<9] 5 (sample_step 9 5) 0 [] = [0, 1, 2, 3, 4]
   \<and> \<not> spans_whole_range 9 (sample_step 9 5) [0, 1, 2, 3, 4]"
proof -
  have st: "sample_step 9 5 = 1" by (simp add: sample_step_def)
  have "select_loop [0..<9] 5 (sample_step (length [0..<9]) 5) 0 [] =
          map (\<lambda>k. [0..<9] ! (k * sample_step (length [0..<9]) 5)) [0..<min (nat 5) (length [0..<9])]"
    by (rule select_loop_positions) simp
  also have "\<dots> = map (\<lambda>k. [0..<9] ! k) [0..<5]" using st by simp
  also have "\<dots> = [0, 1, 2, 3, 4]" by (simp add: upt_rec)
  finally have "select_loop [0..<9] 5 (sample_step 9 5) 0 [] = [0, 1, 2, 3, 4]" by simp
  moreover have "\<not> spans_whole_range 9 (sample_step 9 5) [0, 1, 2, 3, 4]"
    by (simp add: spans_whole_range_def st)
  ultimately show ?thesis by simp
qed

theorem sample_selection_witness:
  "validIdx_of (replicate 1000 (Fin 0)) (replicate 1000 (Number (Fin 1)))
        (replicate 1000 (Number (Fin 1))) = [0..<1000]
   \<and> select_loop [0..<1000] 5 (sample_step 1000 5) 0 [] = map ((!) [0..<1000]) [0, 200, 400, 600, 800]
   \<and> spans_whole_range 1000 (sample_step 1000 5) [0, 200, 400, 600, 800]"
proof -
  have v: "[0..<1000] = validIdx_of (replicate 1000 (Fin 0)) (replicate 1000 (Number (Fin 1)))
        (replicate 1000 (Number (Fin 1)))"
    by (simp add: validIdx_of_def aget_def)
  have st: "sample_step 1000 5 = 200" by (simp add: sample_step_def)
  have ps: "selected_positions 1000 5 = [0, 200, 400, 600, 800]"
    by (simp add: selected_positions_def st upt_rec)
  have h1: "3 \<le> length [0..<1000]" by simp
  have h2: "(1::int) \<le> 5" by simp
  show ?thesis
    using sample_selection[OF v h1 h2] v[symmetric] ps by simp
qed

section \<open>The Kepler solver as a Newton iteration\<close>

lemma rtrunc_twice:
  "q - of_int (rtrunc q) + 1 - of_int (rtrunc (q - of_int (rtrunc q) + 1)) = frac q"
proof (cases "0 \<le> q")
  case True
  then have t: "rtrunc q = \<lfloor>q\<rfloor>" by (simp add: rtrunc_def)
  have "q - of_int \<lfloor>q\<rfloor> = frac q" by (simp add: frac_def)
  moreover have "0 \<le> frac q" "frac q < 1" by (simp_all add: frac_lt_1)
  moreover have "\<lfloor>frac q + 1\<rfloor> = 1" using \<open>0 \<le> frac q\<close> \<open>frac q < 1\<close> by linarith
  ultimately show ?thesis using t by (simp add: rtrunc_def)
next
  case False
  then have t: "rtrunc q = \<lceil>q\<rceil>" by (simp add: rtrunc_def)
  show ?thesis
  proof (cases "q = of_int \<lfloor>q\<rfloor>")
    case True
    then have "\<lceil>q\<rceil> = \<lfloor>q\<rfloor>" by (simp add: ceiling_altdef)
    then have "q - of_int (rtrunc q) = 0" using t True by simp
    moreover have "frac q = 0" using True by (simp add: frac_def)
    ultimately show ?thesis by (simp add: rtrunc_def)
  next
    case nint: False
    then have c: "\<lceil>q\<rceil> = \<lfloor>q\<rfloor> + 1" by (simp add: ceiling_altdef)
    have "q - of_int (rtrunc q) + 1 = frac q" using t c by (simp add: frac_def)
    moreover have "0 \<le> frac q" "frac q < 1" by (simp_all add: frac_lt_1)
    moreover have "\<lfloor>frac q\<rfloor> = 0" using \<open>0 \<le> frac q\<close> \<open>frac q < 1\<close> by linarith
    ultimately show ?thesis by (simp add: rtrunc_def)
  qed
qed

lemma normalize_anomaly_Fin:
  "normalize_anomaly (Fin m) = Fin (2 * pi * frac (m / (2 * pi)))"
proof -
  let ?y = "2 * pi"
  let ?q = "m / ?y"
  have y: "?y \<noteq> 0" by simp
  have m: "m = ?y * ?q" by simp
  have q2: "(m - ?y * of_int (rtrunc ?q) + ?y) / ?y = ?q - of_int (rtrunc ?q) + 1"
    by (simp add: field_simps)
  have "normalize_anomaly (Fin m) =
      Fin ((m - ?y * of_int (rtrunc ?q) + ?y) - ?y * of_int (rtrunc ((m - ?y * of_int (rtrunc ?q) + ?y) / ?y)))"
    by (simp add: normalize_anomaly_def PI_def)
  also have "(m - ?y * of_int (rtrunc ?q) + ?y) - ?y * of_int (rtrunc ((m - ?y * of_int (rtrunc ?q) + ?y) / ?y))
      = ?y * (?q - of_int (rtrunc ?q) + 1 - of_int (rtrunc (?q - of_int (rtrunc ?q) + 1)))"
    unfolding q2 by (simp add: algebra_simps)
  also have "\<dots> = ?y * frac ?q" by (simp only: rtrunc_twice)
  finally show ?thesis .
qed

lemma normalize_anomaly_range:
  "\<exists>r. normalize_anomaly (Fin m) = Fin r \<and> 0 \<le> r \<and> r < 2 * pi \<and> (\<exists>z::int. r = m - 2 * pi * of_int z)"
proof -
  let ?r = "2 * pi * frac (m / (2 * pi))"
  have "0 \<le> ?r" by simp
  moreover have "?r < 2 * pi" using frac_lt_1[of "m / (2 * pi)"] by simp
  moreover have "?r = m - 2 * pi * of_int \<lfloor>m / (2 * pi)\<rfloor>"
    by (simp add: frac_def algebra_simps)
  ultimately show ?thesis using normalize_anomaly_Fin[of m] by blast
qed

lemma normalize_anomaly_period:
  "normalize_anomaly (Fin (m + 2 * pi * of_int k)) = normalize_anomaly (Fin m)"
proof -
  have "(m + 2 * pi * of_int k) / (2 * pi) = m / (2 * pi) + of_int k"
    by (simp add: field_simps)
  then have "frac ((m + 2 * pi * of_int k) / (2 * pi)) = frac (m / (2 * pi))"
    by (simp add: frac_def)
  then show ?thesis by (simp only: normalize_anomaly_Fin)
qed

lemma jdiv_jneg: "jdiv (jneg a) b = jneg (jdiv a b)"
  by (cases a; cases b) auto

lemma kepler_loop_unfold:
  "kepler_loop M e tol maxiter i E =
     (if i < maxiter then
        (if converged M e tol E then newton_update M e E
         else kepler_loop M e tol maxiter (Suc i) (newton_update M e E))
      else E)"
  by (subst kepler_loop.simps)
     (simp add: Let_def converged_def newton_delta_def newton_update_def kepler_f_def
        kepler_fp_def jdiv_jneg jsub_def)

lemma kepler_loop_iterates:
  "\<exists>k. i + k \<le> max i maxiter
      \<and> kepler_loop M e tol maxiter i E = (newton_update M e ^^ k) E
      \<and> (i + k < maxiter \<longrightarrow> 0 < k \<and> converged M e tol ((newton_update M e ^^ (k - 1)) E))
      \<and> (\<forall>j. Suc j < k \<longrightarrow> \<not> converged M e tol ((newton_update M e ^^ j) E))"
proof (induction M e tol maxiter i E rule: kepler_loop.induct)
  case (1 M e tol maxiter i E)
  let ?up = "newton_update M e"
  show ?case
  proof (cases "i < maxiter")
    case False
    then have "kepler_loop M e tol maxiter i E = E"
      by (subst kepler_loop_unfold) simp
    then show ?thesis using False by (intro exI[of _ 0]) simp
  next
    case lt: True
    show ?thesis
    proof (cases "converged M e tol E")
      case True
      then have "kepler_loop M e tol maxiter i E = ?up E"
        using lt by (subst kepler_loop_unfold) simp
      then show ?thesis using lt True by (intro exI[of _ 1]) simp
    next
      case False
      have nc: "\<not> jlt (jabs (jdiv (jneg (jsub (jsub E (jmul e (jsin E))) M))
                   (jsub (Fin 1) (jmul e (jcos E))))) tol"
        using False
        by (simp add: converged_def newton_delta_def kepler_f_def kepler_fp_def jdiv_jneg)
      have up: "jadd E (jdiv (jneg (jsub (jsub E (jmul e (jsin E))) M))
                   (jsub (Fin 1) (jmul e (jcos E)))) = ?up E"
        by (simp add: newton_update_def kepler_f_def kepler_fp_def jdiv_jneg jsub_def)
      from "1.IH"[OF lt refl refl refl refl nc, unfolded up]
      obtain k where k: "Suc i + k \<le> max (Suc i) maxiter"
        "kepler_loop M e tol maxiter (Suc i) (?up E) = (?up ^^ k) (?up E)"
        "Suc i + k < maxiter \<longrightarrow> 0 < k \<and> converged M e tol ((?up ^^ (k - 1)) (?up E))"
        "\<forall>j. Suc j < k \<longrightarrow> \<not> converged M e tol ((?up ^^ j) (?up E))"
        by blast
      have r: "kepler_loop M e tol maxiter i E = (?up ^^ Suc k) E"
        using lt False k(2) by (subst kepler_loop_unfold) (simp add: funpow_swap1)
      have b: "i + Suc k \<le> max i maxiter" using k(1) lt by simp
      have c: "i + Suc k < maxiter \<longrightarrow> 0 < Suc k \<and> converged M e tol ((?up ^^ (Suc k - 1)) E)"
      proof
        assume "i + Suc k < maxiter"
        then have "0 < k \<and> converged M e tol ((?up ^^ (k - 1)) (?up E))" using k(3) by simp
        then obtain k' where "k = Suc k'" "converged M e tol ((?up ^^ k') (?up E))"
          by (cases k) simp_all
        then show "0 < Suc k \<and> converged M e tol ((?up ^^ (Suc k - 1)) E)"
          by (simp add: funpow_swap1)
      qed
      have d: "\<forall>j. Suc j < Suc k \<longrightarrow> \<not> converged M e tol ((?up ^^ j) E)"
      proof (intro allI impI)
        fix j assume j: "Suc j < Suc k"
        show "\<not> converged M e tol ((?up ^^ j) E)"
        proof (cases j)
          case 0
          then show ?thesis using False by simp
        next
          case (Suc j')
          then have "Suc j' < k" using j by simp
          then have "\<not> converged M e tol ((?up ^^ j') (?up E))" using k(4) by blast
          then show ?thesis using Suc by (simp add: funpow_swap1)
        qed
      qed
      show ?thesis using r b c d by blast
    qed
  qed
qed


text \<open>
  C2: for a finite mean anomaly \<open>m\<close> and any eccentricity, tolerance and iteration cap,
  \<open>solveKepler\<close> normalizes \<open>m\<close> to the \<open>r\<close> in \<open>[0, 2\<pi>)\<close> that differs from it by a
  multiple of \<open>2\<pi>\<close>, starts from \<open>r\<close> when \<open>e < 0.8\<close> and from \<open>\<pi>\<close> otherwise, and returns
  the iterate after \<open>k \<le> maxiter\<close> Newton--Raphson updates: \<open>k\<close> is the first update
  whose step is below the tolerance, and \<open>maxiter\<close> when there is none. The result is a
  number in every case; nothing is raised when the iteration does not converge.
\<close>

theorem solveKepler_newton:
  "\<exists>r k. normalize_anomaly (Fin m) = Fin r \<and> 0 \<le> r \<and> r < 2 * pi
      \<and> (\<exists>z::int. r = m - 2 * pi * of_int z)
      \<and> k \<le> maxiter
      \<and> solveKepler (Fin m) e tol maxiter =
            (newton_update (Fin r) e ^^ k) (if jlt e (Fin 0.8) then Fin r else PI)
      \<and> (k < maxiter \<longrightarrow> 0 < k \<and>
            converged (Fin r) e tol
              ((newton_update (Fin r) e ^^ (k - 1)) (if jlt e (Fin 0.8) then Fin r else PI)))
      \<and> (\<forall>j. Suc j < k \<longrightarrow>
            \<not> converged (Fin r) e tol
              ((newton_update (Fin r) e ^^ j) (if jlt e (Fin 0.8) then Fin r else PI)))"
proof -
  obtain r where r: "normalize_anomaly (Fin m) = Fin r" "0 \<le> r" "r < 2 * pi"
    "\<exists>z::int. r = m - 2 * pi * of_int z"
    using normalize_anomaly_range[of m] by blast
  let ?E0 = "if jlt e (Fin 0.8) then Fin r else PI"
  obtain k where k: "0 + k \<le> max 0 maxiter"
    "kepler_loop (Fin r) e tol maxiter 0 ?E0 = (newton_update (Fin r) e ^^ k) ?E0"
    "0 + k < maxiter \<longrightarrow> 0 < k \<and> converged (Fin r) e tol ((newton_update (Fin r) e ^^ (k - 1)) ?E0)"
    "\<forall>j. Suc j < k \<longrightarrow> \<not> converged (Fin r) e tol ((newton_update (Fin r) e ^^ j) ?E0)"
    using kepler_loop_iterates[of 0 maxiter "Fin r" e tol ?E0] by blast
  have "solveKepler (Fin m) e tol maxiter = (newton_update (Fin r) e ^^ k) ?E0"
    using k(2) r(1) by (simp add: solveKepler_def Let_def)
  moreover have "k \<le> maxiter" using k(1) by simp
  moreover have "k < maxiter \<longrightarrow> 0 < k \<and> converged (Fin r) e tol ((newton_update (Fin r) e ^^ (k - 1)) ?E0)"
    using k(3) by simp
  ultimately show ?thesis using r k(4) by blast
qed

theorem solveKepler_newton_witness:
  "solveKepler (Fin 0) (Fin 0) (Fin (1 / 10 ^ 9)) 80 = Fin 0"
proof -
  obtain r k where rk: "normalize_anomaly (Fin 0) = Fin r"
    "solveKepler (Fin 0) (Fin 0) (Fin (1 / 10 ^ 9)) 80 =
       (newton_update (Fin r) (Fin 0) ^^ k) (if jlt (Fin 0) (Fin 0.8) then Fin r else PI)"
    using solveKepler_newton[of 0 80 "Fin 0" "Fin (1 / 10 ^ 9)"] by blast
  have "r = 0" using rk(1) by (simp add: normalize_anomaly_Fin)
  moreover have "newton_update (Fin 0) (Fin 0) (Fin 0) = Fin 0"
    by (simp add: newton_update_def kepler_f_def kepler_fp_def jsub_def)
  then have "(newton_update (Fin 0) (Fin 0) ^^ k) (Fin 0) = Fin 0"
    by (induction k) simp_all
  ultimately show ?thesis using rk(2) by simp
qed

section \<open>The position for valid elements\<close>

lemma ecc_cos_less:
  fixes e E :: real
  assumes e: "\<bar>e\<bar> < 1"
  shows "e * cos E < 1"
proof -
  have "\<bar>e * cos E\<bar> \<le> \<bar>e\<bar>"
    using abs_cos_le_one[of E] by (simp add: abs_mult mult_left_le)
  then show ?thesis using e by linarith
qed

lemma newton_update_Fin:
  assumes "\<bar>e\<bar> < 1"
  shows "newton_update (Fin M) (Fin e) (Fin E) =
           Fin (E - (E - e * sin E - M) / (1 - e * cos E))"
  using ecc_cos_less[OF assms, of E]
  by (simp add: newton_update_def kepler_f_def kepler_fp_def jsub_def)

lemma newton_iterates_Fin:
  assumes "\<bar>e\<bar> < 1"
  shows "\<exists>E'. (newton_update (Fin M) (Fin e) ^^ k) (Fin E) = Fin E'"
proof (induction k)
  case 0
  show ?case by simp
next
  case (Suc k)
  then obtain E' where "(newton_update (Fin M) (Fin e) ^^ k) (Fin E) = Fin E'" by blast
  then show ?case by (simp add: newton_update_Fin[OF assms])
qed

lemma solveKepler_Fin:
  assumes "\<bar>e\<bar> < 1"
  shows "\<exists>E. solveKepler (Fin M) (Fin e) tol maxiter = Fin E"
proof -
  obtain r where r: "normalize_anomaly (Fin M) = Fin r"
    using normalize_anomaly_range[of M] by blast
  let ?E0 = "if e < 0.8 then r else pi"
  obtain k where "kepler_loop (Fin r) (Fin e) tol maxiter 0 (Fin ?E0)
       = (newton_update (Fin r) (Fin e) ^^ k) (Fin ?E0)"
    using kepler_loop_iterates[of 0 maxiter "Fin r" "Fin e" tol "Fin ?E0"] by blast
  moreover have "solveKepler (Fin M) (Fin e) tol maxiter =
      kepler_loop (Fin r) (Fin e) tol maxiter 0 (Fin ?E0)"
    by (simp add: solveKepler_def r PI_def Let_def)
  ultimately show ?thesis
    using newton_iterates_Fin[OF assms, where M = r and k = k and E = ?E0] by simp
qed

lemma position_from_anomaly:
  assumes a: "0 < a" and e: "e\<^sup>2 \<le> 1"
    and E: "solveKepler_default
              (Fin (reference_mean_anomaly (a * AU_KM) (deg_to_rad M0) epochJD targetJD))
              (Fin e) = Fin E"
  shows "elementsToPosition (Fin a) (Fin e) (Fin i) (Fin Omega) (Fin omega) (Fin M0)
           (Fin epochJD) (map_option Fin targetJD) =
         fin3 (reference_position (a * AU_KM) e (deg_to_rad i) (deg_to_rad Omega)
                 (deg_to_rad omega) E)"
proof -
  let ?akm = "a * AU_KM"
  have akm: "0 < ?akm" using a by (simp add: AU_KM_def)
  have "?akm \<noteq> 0" using akm by linarith
  then have c0: "?akm * ?akm * ?akm \<noteq> 0" by simp
  have cube: "?akm * ?akm * ?akm = ?akm ^ 3" by (simp add: power3_eq_cube)
  have "0 < MU_SUN / ?akm ^ 3" using akm by (simp add: MU_SUN_def)
  then have "\<not> MU_SUN / (?akm * ?akm * ?akm) < 0" unfolding cube by linarith
  then have n: "jsqrt (jdiv (Fin MU_SUN) (Fin (?akm * ?akm * ?akm)))
                 = Fin (sqrt (MU_SUN / ?akm ^ 3))"
    using c0 by (simp only: jdiv.simps jsqrt.simps if_False cube)
  have M: "(case map_option Fin targetJD of
                 None \<Rightarrow> jdiv (jmul (Fin M0) PI) (Fin 180)
               | Some t \<Rightarrow> jadd (jdiv (jmul (Fin M0) PI) (Fin 180))
                    (jmul (Fin (sqrt (MU_SUN / ?akm ^ 3))) (jmul (jsub t (Fin epochJD)) (Fin 86400))))
           = Fin (reference_mean_anomaly ?akm (deg_to_rad M0) epochJD targetJD)"
    by (cases targetJD) (simp_all add: reference_mean_anomaly_def deg_to_rad_def PI_def jsub_def)
  have s: "jsqrt (jsub (Fin 1) (Fin (e * e))) = Fin (sqrt (1 - e\<^sup>2))"
    using e by (simp add: jsub_def power2_eq_square)
  show ?thesis
    unfolding elementsToPosition_def Let_def
    apply (simp only: jmul.simps(1))
    apply (simp only: n)
    apply (simp only: M)
    apply (simp only: E s)
    apply (simp add: reference_position_def Let_def deg_to_rad_def PI_def jsub_def algebra_simps)
    done
qed


lemma elementsToPosition_split:
  "elementsToPosition a_AU e i_deg Omega_deg omega_deg M_deg epochJD targetJD =
     position_at_anomaly a_AU e i_deg Omega_deg omega_deg
       (solveKepler_default (mean_anomaly_at a_AU M_deg epochJD targetJD) e)"
  by (simp only: elementsToPosition_def position_at_anomaly_def mean_anomaly_at_def Let_def)

text \<open>
  C1: for \<open>a > 0\<close> and \<open>0 \<le> e < 1\<close>, finite angles in degrees, a finite epoch and a target
  date that is finite or absent, the solver returns a finite eccentric anomaly \<open>E\<close> for
  the mean anomaly \<open>M\<^sub>0 + n (targetJD - epochJD) 86400\<close> (or \<open>M\<^sub>0\<close> without a target date),
  with \<open>n = sqrt(\<mu> / a_km\<^sup>3)\<close>, and \<open>elementsToPosition\<close> returns the perifocal vector
  \<open>(r cos \<nu>, r sin \<nu>, 0)\<close> of \<open>\<nu> = atan2(sqrt(1 - e\<^sup>2) sin E, cos E - e)\<close> and
  \<open>r = a_km (1 - e cos E)\<close>, rotated by \<open>Rz(-\<Omega>) Rx(-i) Rz(-\<omega>)\<close>.
\<close>

theorem elementsToPosition_reference:
  assumes "0 < a" and "0 \<le> e" and "e < 1"
  shows "\<exists>E. solveKepler_default
              (Fin (reference_mean_anomaly (a * AU_KM) (deg_to_rad M0) epochJD targetJD))
              (Fin e) = Fin E
           \<and> elementsToPosition (Fin a) (Fin e) (Fin i) (Fin Omega) (Fin omega) (Fin M0)
                (Fin epochJD) (map_option Fin targetJD) =
              fin3 (reference_position (a * AU_KM) e (deg_to_rad i) (deg_to_rad Omega)
                      (deg_to_rad omega) E)"
proof -
  have e1: "\<bar>e\<bar> < 1" using assms by simp
  have "e\<^sup>2 \<le> 1\<^sup>2" using assms by (intro power_mono) simp_all
  then have e2: "e\<^sup>2 \<le> 1" by simp
  obtain E where E: "solveKepler_default
              (Fin (reference_mean_anomaly (a * AU_KM) (deg_to_rad M0) epochJD targetJD))
              (Fin e) = Fin E"
    using solveKepler_Fin[OF e1] unfolding solveKepler_default_def by blast
  show ?thesis
    using E position_from_anomaly[OF assms(1) e2 E] by blast
qed

lemma solveKepler_default_zero: "solveKepler_default (Fin 0) (Fin 0) = Fin 0"
proof -
  have n: "normalize_anomaly (Fin 0) = Fin 0" by (simp add: normalize_anomaly_Fin)
  have c: "converged (Fin 0) (Fin 0) (Fin (1 / 10 ^ 9)) (Fin 0)"
    by (simp add: converged_def newton_delta_def kepler_f_def kepler_fp_def jsub_def)
  have u: "newton_update (Fin 0) (Fin 0) (Fin 0) = Fin 0"
    by (simp add: newton_update_def kepler_f_def kepler_fp_def jsub_def)
  have "kepler_loop (Fin 0) (Fin 0) (Fin (1 / 10 ^ 9)) 80 0 (Fin 0) = Fin 0"
    using c u by (subst kepler_loop_unfold) simp
  then show ?thesis by (simp add: solveKepler_default_def solveKepler_def n)
qed

theorem elementsToPosition_reference_witness:
  "elementsToPosition (Fin 1) (Fin 0) (Fin 0) (Fin 0) (Fin 0) (Fin 0) (Fin 2451545) None
     = (Fin AU_KM, Fin 0, Fin 0)"
proof -
  obtain E where E: "solveKepler_default
              (Fin (reference_mean_anomaly (1 * AU_KM) (deg_to_rad 0) 2451545 None))
              (Fin 0) = Fin E"
     "elementsToPosition (Fin 1) (Fin 0) (Fin 0) (Fin 0) (Fin 0) (Fin 0)
                (Fin 2451545) (map_option Fin None) =
              fin3 (reference_position (1 * AU_KM) 0 (deg_to_rad 0) (deg_to_rad 0)
                      (deg_to_rad 0) E)"
    using elementsToPosition_reference[of 1 0 0 2451545 None 0 0 0] by auto
  have "E = 0"
    using E(1) solveKepler_default_zero
    by (simp add: reference_mean_anomaly_def deg_to_rad_def)
  then show ?thesis
    using E(2) by (simp add: reference_position_def deg_to_rad_def atan2_def)
qed


lemma rotation_sq:
  fixes c s x y :: real
  assumes "s\<^sup>2 + c\<^sup>2 = 1"
  shows "(c * x + s * y)\<^sup>2 + (- s * x + c * y)\<^sup>2 = x\<^sup>2 + y\<^sup>2"
proof -
  have "(c * x + s * y)\<^sup>2 + (- s * x + c * y)\<^sup>2 = (s\<^sup>2 + c\<^sup>2) * (x\<^sup>2 + y\<^sup>2)"
    by (simp add: power2_eq_square algebra_simps)
  then show ?thesis using assms by simp
qed

lemma vec_norm_Rz: "vec_norm (Rz \<theta> v) = vec_norm v"
proof (cases v)
  case (fields x y z)
  show ?thesis
    using rotation_sq[of "sin \<theta>" "cos \<theta>" x y] by (simp add: fields)
qed

lemma vec_norm_Rx: "vec_norm (Rx \<theta> v) = vec_norm v"
proof (cases v)
  case (fields x y z)
  have "x\<^sup>2 + ((cos \<theta> * y + sin \<theta> * z)\<^sup>2 + (- sin \<theta> * y + cos \<theta> * z)\<^sup>2) = x\<^sup>2 + (y\<^sup>2 + z\<^sup>2)"
    using rotation_sq[of "sin \<theta>" "cos \<theta>" y z] by simp
  then show ?thesis by (simp add: fields add.assoc)
qed

lemma vec_norm_perifocal: "vec_norm (r * cos nu, r * sin nu, 0) = \<bar>r\<bar>"
proof -
  have "(r * cos nu)\<^sup>2 + (r * sin nu)\<^sup>2 = r\<^sup>2 * ((cos nu)\<^sup>2 + (sin nu)\<^sup>2)"
    by (simp only: power_mult_distrib distrib_left)
  then have "(r * cos nu)\<^sup>2 + (r * sin nu)\<^sup>2 = r\<^sup>2" by simp
  then show ?thesis by simp
qed

lemma vec_norm_reference:
  "vec_norm (reference_position a_km e i Omega omega E) = \<bar>a_km * (1 - e * cos E)\<bar>"
  by (simp only: reference_position_def Let_def vec_norm_Rz vec_norm_Rx vec_norm_perifocal)

text \<open>
  C6: on a circular orbit (\<open>e = 0\<close>, \<open>a > 0\<close>) the position returned for any angles and
  any target date has Euclidean norm \<open>a \<sqdot> 149597870.7\<close> km.
\<close>

theorem circular_orbit_radius:
  assumes "0 < a"
  shows "\<exists>p. elementsToPosition (Fin a) (Fin 0) (Fin i) (Fin Omega) (Fin omega) (Fin M0)
                (Fin epochJD) (map_option Fin targetJD) = fin3 p
            \<and> vec_norm p = a * AU_KM"
proof -
  obtain E where E: "solveKepler_default
              (Fin (reference_mean_anomaly (a * AU_KM) (deg_to_rad M0) epochJD targetJD))
              (Fin 0) = Fin E"
  proof -
    have "\<bar>0::real\<bar> < 1" by simp
    from solveKepler_Fin[OF this] show ?thesis
      using that unfolding solveKepler_default_def by blast
  qed
  let ?p = "reference_position (a * AU_KM) 0 (deg_to_rad i) (deg_to_rad Omega) (deg_to_rad omega) E"
  have "elementsToPosition (Fin a) (Fin 0) (Fin i) (Fin Omega) (Fin omega) (Fin M0)
                (Fin epochJD) (map_option Fin targetJD) = fin3 ?p"
    using position_from_anomaly[OF assms _ E] by simp
  moreover have "vec_norm ?p = a * AU_KM"
    using assms by (simp add: vec_norm_reference AU_KM_def)
  ultimately show ?thesis by blast
qed

theorem circular_orbit_radius_witness:
  "\<exists>p. elementsToPosition (Fin 1) (Fin 0) (Fin 10) (Fin 20) (Fin 30) (Fin 40)
                (Fin 2451545) (Some (Fin 2451645)) = fin3 p
            \<and> vec_norm p = AU_KM"
  using circular_orbit_radius[of 1 10 20 30 40 2451545 "Some 2451645"] by simp

lemma solveKepler_default_period:
  "solveKepler_default (Fin (m + 2 * pi * of_int k)) e = solveKepler_default (Fin m) e"
  by (simp only: solveKepler_default_def solveKepler_def normalize_anomaly_period)

lemma mean_motion_pos:
  assumes "0 < a"
  shows "0 < sqrt (MU_SUN / (a * AU_KM) ^ 3)"
  using assms by (simp add: MU_SUN_def AU_KM_def)

lemma mean_anomaly_at_Fin:
  assumes "0 < a"
  shows "mean_anomaly_at (Fin a) (Fin M0) (Fin epochJD) (map_option Fin targetJD) =
           Fin (reference_mean_anomaly (a * AU_KM) (deg_to_rad M0) epochJD targetJD)"
proof -
  let ?akm = "a * AU_KM"
  have akm: "0 < ?akm" using assms by (simp add: AU_KM_def)
  then have "?akm \<noteq> 0" by linarith
  then have c0: "?akm * ?akm * ?akm \<noteq> 0" by simp
  have cube: "?akm * ?akm * ?akm = ?akm ^ 3" by (simp add: power3_eq_cube)
  have "0 < MU_SUN / ?akm ^ 3" using akm by (simp add: MU_SUN_def)
  then have "\<not> MU_SUN / (?akm * ?akm * ?akm) < 0" unfolding cube by linarith
  then have n: "jsqrt (jdiv (Fin MU_SUN) (Fin (?akm * ?akm * ?akm)))
                 = Fin (sqrt (MU_SUN / ?akm ^ 3))"
    using c0 by (simp only: jdiv.simps jsqrt.simps if_False cube)
  show ?thesis
    unfolding mean_anomaly_at_def Let_def
    apply (simp only: jmul.simps(1))
    apply (simp only: n)
    apply (cases targetJD)
     apply (simp_all add: reference_mean_anomaly_def deg_to_rad_def PI_def jsub_def)
    done
qed

text \<open>
  C7: for \<open>a > 0\<close> and any integer \<open>k\<close>, the position at \<open>epoch + k \<sqdot> period\<close>, with the
  period \<open>2\<pi> / n\<close> seconds converted to days, is the position at the epoch: the mean
  anomaly advances by \<open>2\<pi>k\<close> and the solver normalizes it to the same value.
\<close>

theorem position_periodic:
  assumes "0 < a"
  shows "elementsToPosition (Fin a) e i_deg Omega_deg omega_deg (Fin M0) (Fin epochJD)
           (Some (Fin (epochJD + of_int k * orbital_period_days a)))
         = elementsToPosition (Fin a) e i_deg Omega_deg omega_deg (Fin M0) (Fin epochJD)
           (Some (Fin epochJD))
       \<and> elementsToPosition (Fin a) e i_deg Omega_deg omega_deg (Fin M0) (Fin epochJD)
           (Some (Fin epochJD))
         = elementsToPosition (Fin a) e i_deg Omega_deg omega_deg (Fin M0) (Fin epochJD) None"
proof -
  let ?n = "sqrt (MU_SUN / (a * AU_KM) ^ 3)"
  have n: "?n \<noteq> 0" using mean_motion_pos[OF assms] by linarith
  have "?n * ((epochJD + of_int k * orbital_period_days a - epochJD) * 86400)
          = 2 * pi * of_int k"
    using n by (simp add: orbital_period_days_def)
  then have a1: "reference_mean_anomaly (a * AU_KM) (deg_to_rad M0) epochJD
            (Some (epochJD + of_int k * orbital_period_days a))
          = deg_to_rad M0 + 2 * pi * of_int k"
    by (simp add: reference_mean_anomaly_def)
  have a2: "reference_mean_anomaly (a * AU_KM) (deg_to_rad M0) epochJD (Some epochJD)
          = deg_to_rad M0"
    by (simp add: reference_mean_anomaly_def)
  have a3: "reference_mean_anomaly (a * AU_KM) (deg_to_rad M0) epochJD None = deg_to_rad M0"
    by (simp add: reference_mean_anomaly_def)
  have m1: "mean_anomaly_at (Fin a) (Fin M0) (Fin epochJD)
               (Some (Fin (epochJD + of_int k * orbital_period_days a)))
             = Fin (deg_to_rad M0 + 2 * pi * of_int k)"
    using mean_anomaly_at_Fin[OF assms, of M0 epochJD "Some (epochJD + of_int k * orbital_period_days a)"]
    by (simp only: a1 option.map)
  have m2: "mean_anomaly_at (Fin a) (Fin M0) (Fin epochJD) (Some (Fin epochJD))
             = Fin (deg_to_rad M0)"
    using mean_anomaly_at_Fin[OF assms, of M0 epochJD "Some epochJD"]
    by (simp only: a2 option.map)
  have m3: "mean_anomaly_at (Fin a) (Fin M0) (Fin epochJD) None = Fin (deg_to_rad M0)"
    using mean_anomaly_at_Fin[OF assms, of M0 epochJD None]
    by (simp only: a3 option.map)
  show ?thesis
    by (simp only: elementsToPosition_split m1 m2 m3 solveKepler_default_period)
qed

theorem position_periodic_witness:
  "elementsToPosition (Fin 1) (Fin 0.0167) (Fin 0) (Fin 0) (Fin 102.9) (Fin 100.5) (Fin 2451545)
           (Some (Fin (2451545 + 3 * orbital_period_days 1)))
         = elementsToPosition (Fin 1) (Fin 0.0167) (Fin 0) (Fin 0) (Fin 102.9) (Fin 100.5)
             (Fin 2451545) None"
  using position_periodic[of 1 "Fin 0.0167" "Fin 0" "Fin 0" "Fin 102.9" "100.5" 2451545 3]
  by simp

section \<open>Invalid input: special values instead of exceptions\<close>

lemma jadd_NaN [simp]: "jadd NaN x = NaN" "jadd x NaN = NaN"
  by (cases x; simp)+

lemma jmul_NaN [simp]: "jmul NaN x = NaN" "jmul x NaN = NaN"
  by (cases x; simp)+

lemma jsub_NaN [simp]: "jsub NaN x = NaN" "jsub x NaN = NaN"
  by (simp_all add: jsub_def)

lemma jdiv_NaN [simp]: "jdiv NaN x = NaN" "jdiv x NaN = NaN"
  by (cases x; simp)+

lemma jatan2_NaN [simp]: "jatan2 NaN x = NaN" "jatan2 x NaN = NaN"
  by (cases x; simp)+

lemma jlt_NaN [simp]: "\<not> jlt NaN x" "\<not> jlt x NaN"
  by (cases x; simp)+


lemma position_at_anomaly_hyperbolic:
  assumes "1 < e\<^sup>2"
  shows "position_at_anomaly a_AU (Fin e) i_deg Omega_deg omega_deg E = (NaN, NaN, NaN)"
proof -
  have "1 - e * e < 0" using assms by (simp add: power2_eq_square)
  then have "jsqrt (jsub (Fin 1) (jmul (Fin e) (Fin e))) = NaN"
    by (simp add: jsub_def)
  then show ?thesis by (simp add: position_at_anomaly_def Let_def)
qed

















section \<open>Cross-validation: the value returned\<close>

lemma or_zero_recorded: "v \<noteq> Number NaN \<Longrightarrow> or_zero v = recorded_coord v"
  by (cases v) (auto simp add: or_zero_def recorded_coord_def)

lemma aget_cases: "aget xs i = Undefined \<or> aget xs i \<in> set xs"
  by (simp add: aget_def)

lemma aget_not_NaN: "Number NaN \<notin> set xs \<Longrightarrow> aget xs i \<noteq> Number NaN"
  using aget_cases[of xs i] by auto

lemma sq_residual_distance:
  assumes "idx < length tms"
    and "Number NaN \<notin> set (obj_x ob)" "Number NaN \<notin> set (obj_y ob)"
        "Number NaN \<notin> set (obj_z ob)"
  shows "sq_residual tms el (obj_x ob) (obj_y ob) (obj_z ob) idx =
           sq_distance (recorded_position ob idx) (propagated_position el (tms ! idx))"
proof -
  obtain px py pz where p: "propagated_position el (tms ! idx) = (px, py, pz)"
    by (cases "propagated_position el (tms ! idx)")
  have t: "tget tms idx = Some (tms ! idx)" using assms(1) by (simp add: tget_def)
  show ?thesis
    using p assms(2-4)
    by (simp add: sq_residual_def t recorded_position_def or_zero_recorded aget_not_NaN
          propagated_position_def[symmetric] Let_def)
qed

lemma selected_in_range:
  assumes "1 \<le> n" "k < min (nat n) (length v)"
  shows "v ! (k * sample_step (length v) n) \<in> set v"
  using position_in_range[OF assms] by simp

text \<open>
  C3, as the code has it: for an object whose elements pass the completeness check (a
  truthy \<open>a\<close>, that is a number other than \<open>0\<close> and \<open>NaN\<close>; \<open>e\<close> and \<open>i\<close> not
  \<open>undefined\<close>), with at least 3 valid samples, \<open>sampleCount \<ge> 1\<close> and no \<open>NaN\<close> among
  the recorded coordinates, the result holds the number of selected samples and the square
  root of the sum, divided by that number, of the squared distances between the recorded
  position (an absent \<open>z\<close> read as \<open>0\<close>) and the position propagated to the sample's Julian
  date with \<open>\<Omega> = \<omega> = M\<^sub>0 = 0\<close> and the epoch \<open>2451545.0\<close>.
\<close>

theorem crossValidate_rms:
  assumes "elements ob = Some el" and "truthy (el_a_AU el)"
    and "el_e el \<noteq> Undefined" and "el_i_deg el \<noteq> Undefined"
    and "v = validIdx_of (times_jd sc) (obj_x ob) (obj_y ob)" and "3 \<le> length v"
    and "1 \<le> n"
    and "Number NaN \<notin> set (obj_x ob)" and "Number NaN \<notin> set (obj_y ob)"
    and "Number NaN \<notin> set (obj_z ob)"
    and "smp = select_loop v n (sample_step (length v) n) 0 []"
  shows "crossValidateElements sc ob n =
    Some \<lparr>rms_km = jsqrt (jdiv
               (js_sum (map (\<lambda>idx. sq_distance (recorded_position ob idx)
                                   (propagated_position el (times_jd sc ! idx))) smp))
               (Fin (real (length smp)))),
          samples = length smp\<rparr>"
proof -
  have smp: "smp = map (\<lambda>k. v ! (k * sample_step (length v) n)) [0..<min (nat n) (length v)]"
    using assms(11) select_loop_positions[OF assms(7)] by simp
  have "idx < length (times_jd sc)" if "idx \<in> set smp" for idx
  proof -
    from that obtain k where "k < min (nat n) (length v)" "idx = v ! (k * sample_step (length v) n)"
      unfolding smp by auto
    then have "idx \<in> set v" using selected_in_range[OF assms(7)] by simp
    then show ?thesis using validIdx_bound assms(5) by simp
  qed
  then have eq: "map (sq_residual (times_jd sc) el (obj_x ob) (obj_y ob) (obj_z ob)) smp =
        map (\<lambda>idx. sq_distance (recorded_position ob idx)
                                   (propagated_position el (times_jd sc ! idx))) smp"
    using sq_residual_distance[OF _ assms(8-10)] by (intro map_cong) simp_all
  note acc = crossValidate_accept[OF assms(1-4) assms(6)[unfolded assms(5)] assms(7),
      unfolded Let_def, folded assms(5), folded assms(11)]
  show ?thesis by (simp only: acc eq js_sum_def)
qed


lemma example_selection:
  "select_loop [0, 1, 2] 10 (sample_step (length [0, 1, 2 :: nat]) 10) 0 [] = [0, 1, 2]"
proof -
  have "select_loop [0, 1, 2] 10 (sample_step (length [0, 1, 2 :: nat]) 10) 0 [] =
          map (\<lambda>k. [0, 1, 2] ! (k * sample_step (length [0, 1, 2 :: nat]) 10))
            [0..<min (nat 10) (length [0, 1, 2 :: nat])]"
    by (rule select_loop_positions) simp
  then show ?thesis by (simp add: sample_step_def upt_rec)
qed

theorem crossValidate_rms_witness:
  "crossValidateElements example_scene (example_obj ''Ceres'' (Number (Fin 1)) (Number (Fin 0))) 10 =
    Some \<lparr>rms_km = jsqrt (jdiv
               (js_sum (map (\<lambda>idx. sq_distance
                    (recorded_position (example_obj ''Ceres'' (Number (Fin 1)) (Number (Fin 0))) idx)
                    (propagated_position
                       \<lparr>el_a_AU = Number (Fin 1), el_e = Number (Fin 0), el_i_deg = Number (Fin 0)\<rparr>
                       (times_jd example_scene ! idx))) [0, 1, 2]))
               (Fin 3)),
          samples = 3\<rparr>"
proof -
  let ?ob = "example_obj ''Ceres'' (Number (Fin 1)) (Number (Fin 0))"
  let ?el = "\<lparr>el_a_AU = Number (Fin 1), el_e = Number (Fin 0), el_i_deg = Number (Fin 0)\<rparr>"
  have h1: "elements ?ob = Some ?el" by (simp add: example_obj_def)
  have h2: "truthy (el_a_AU ?el)" "el_e ?el \<noteq> Undefined" "el_i_deg ?el \<noteq> Undefined" by simp_all
  have h5: "[0, 1, 2] = validIdx_of (times_jd example_scene) (obj_x ?ob) (obj_y ?ob)"
    by (simp add: validIdx_example)
  have h6: "3 \<le> length [0, 1, 2 :: nat]" by simp
  have h7: "(1::int) \<le> 10" by simp
  have h8: "Number NaN \<notin> set (obj_x ?ob)" "Number NaN \<notin> set (obj_y ?ob)"
    "Number NaN \<notin> set (obj_z ?ob)"
    by (simp_all add: example_obj_def)
  show ?thesis
    using crossValidate_rms[OF h1 h2 h5 h6 h7 h8 example_selection[symmetric]] by simp
qed


text \<open>
  With all three elements present and 3 valid samples, no result is returned when the
  semi-major axis is \<open>0\<close>, nor when \<open>sampleCount = 0\<close>.
\<close>

theorem crossValidate_rms_counterexample:
  "elements (example_obj ''Ceres'' (Number (Fin 0)) (Number (Fin 0))) =
     Some \<lparr>el_a_AU = Number (Fin 0), el_e = Number (Fin 0), el_i_deg = Number (Fin 0)\<rparr>
   \<and> validIdx_of (times_jd example_scene)
        (obj_x (example_obj ''Ceres'' (Number (Fin 0)) (Number (Fin 0))))
        (obj_y (example_obj ''Ceres'' (Number (Fin 0)) (Number (Fin 0)))) = [0, 1, 2]
   \<and> crossValidateElements example_scene
        (example_obj ''Ceres'' (Number (Fin 0)) (Number (Fin 0))) 10 = None
   \<and> crossValidateElements example_scene
        (example_obj ''Ceres'' (Number (Fin 1)) (Number (Fin 0))) 0 = None"
proof -
  have el: "elements (example_obj ''Ceres'' a e) =
        Some \<lparr>el_a_AU = a, el_e = e, el_i_deg = Number (Fin 0)\<rparr>" for a e
    by (simp add: example_obj_def)
  have a0: "crossValidateElements example_scene
        (example_obj ''Ceres'' (Number (Fin 0)) (Number (Fin 0))) 10 = None"
    by (simp add: crossValidate_None_iff el)
  have n0: "crossValidateElements example_scene
        (example_obj ''Ceres'' (Number (Fin 1)) (Number (Fin 0))) 0 = None"
    by (simp add: crossValidate_None_iff el)
  show ?thesis using a0 n0 by (simp add: el validIdx_example)
qed

lemma jmul_self_nonneg: "\<not> jlt (jmul d d) (Fin 0)"
  by (cases d) (simp_all add: not_less)

lemma jadd_nonneg:
  "\<not> jlt a (Fin 0) \<Longrightarrow> \<not> jlt b (Fin 0) \<Longrightarrow> \<not> jlt (jadd a b) (Fin 0)"
  by (cases a; cases b) simp_all

lemma sq_residual_nonneg: "\<not> jlt (sq_residual tms el xs ys zs idx) (Fin 0)"
  by (simp add: sq_residual_def Let_def jadd_nonneg jmul_self_nonneg split: prod.splits)

lemma foldl_jadd_nonneg:
  "\<not> jlt s (Fin 0) \<Longrightarrow> (\<And>x. x \<in> set xs \<Longrightarrow> \<not> jlt x (Fin 0))
     \<Longrightarrow> \<not> jlt (foldl jadd s xs) (Fin 0)"
  by (induction xs arbitrary: s) (simp_all add: jadd_nonneg)

lemma jdiv_pos_nonneg: "0 < c \<Longrightarrow> \<not> jlt a (Fin 0) \<Longrightarrow> \<not> jlt (jdiv a (Fin c)) (Fin 0)"
  by (cases a) (simp_all add: not_less)

lemma jsqrt_nonneg: "\<not> jlt (jsqrt a) (Fin 0)"
  by (cases a) (simp_all add: not_less)

lemma elementsToPosition_finite:
  assumes "0 < a" and "0 \<le> e" and "e < 1"
  shows "\<exists>p. elementsToPosition (Fin a) (Fin e) (Fin i) (Fin Omega) (Fin omega) (Fin M0)
                (Fin epochJD) (map_option Fin targetJD) = fin3 p"
proof -
  have e1: "\<bar>e\<bar> < 1" using assms by simp
  have "e\<^sup>2 \<le> 1\<^sup>2" using assms by (intro power_mono) simp_all
  then have e2: "e\<^sup>2 \<le> 1" by simp
  obtain E where E: "solveKepler_default
              (Fin (reference_mean_anomaly (a * AU_KM) (deg_to_rad M0) epochJD targetJD))
              (Fin e) = Fin E"
    using solveKepler_Fin[OF e1] unfolding solveKepler_default_def by blast
  show ?thesis
    using position_from_anomaly[OF assms(1) e2 E] by blast
qed

lemma or_zero_finite: "finite_coord v \<or> v = Undefined \<Longrightarrow> \<exists>c. or_zero v = Fin c"
proof (cases v)
  case (Number c)
  assume "finite_coord v \<or> v = Undefined"
  then show ?thesis using Number by (cases c) (simp_all add: or_zero_def)
qed (simp_all add: or_zero_def)

lemma aget_finite: "list_all finite_coord xs \<Longrightarrow> finite_coord (aget xs i) \<or> aget xs i = Undefined"
  by (simp add: aget_def list_all_length)

lemma sq_residual_finite:
  assumes "valid_elements el" and "idx < length tms" and "list_all is_finite tms"
    and "list_all finite_coord xs" "list_all finite_coord ys" "list_all finite_coord zs"
  shows "\<exists>r. sq_residual tms el xs ys zs idx = Fin r \<and> 0 \<le> r"
proof -
  from assms(1) obtain a e i where el: "el_a_AU el = Number (Fin a)" "el_e el = Number (Fin e)"
    "el_i_deg el = Number (Fin i)" "0 < a" "0 \<le> e" "e < 1"
    unfolding valid_elements_def by (rule valid_values.elims(2)) auto
  from assms(2,3) have "is_finite (tms ! idx)" by (simp add: list_all_length)
  then obtain t where t: "tms ! idx = Fin t" by (cases "tms ! idx") simp_all
  have tg: "tget tms idx = Some (Fin t)" using assms(2) t by (simp add: tget_def)
  obtain px py pz where p: "elementsToPosition (Fin a) (Fin e) (Fin i) (Fin 0) (Fin 0) (Fin 0)
                (Fin 2451545) (Some (Fin t)) = (Fin px, Fin py, Fin pz)"
    using elementsToPosition_finite[OF el(4-6), of i 0 0 0 2451545 "Some t", simplified]
    by (metis fin3.simps prod_cases3)
  obtain cx cy cz where c: "or_zero (aget xs idx) = Fin cx" "or_zero (aget ys idx) = Fin cy"
    "or_zero (aget zs idx) = Fin cz"
    using or_zero_finite[OF aget_finite[OF assms(4)]] or_zero_finite[OF aget_finite[OF assms(5)]]
      or_zero_finite[OF aget_finite[OF assms(6)]] by blast
  have "sq_residual tms el xs ys zs idx =
      Fin ((cx - px) * (cx - px) + (cy - py) * (cy - py) + (cz - pz) * (cz - pz))"
    by (simp add: sq_residual_def el tg p c jsub_def Let_def)
  then show ?thesis by simp
qed

lemma foldl_jadd_finite:
  "0 \<le> s \<Longrightarrow> (\<And>x. x \<in> set xs \<Longrightarrow> \<exists>r. x = Fin r \<and> 0 \<le> r)
     \<Longrightarrow> \<exists>r. foldl jadd (Fin s) xs = Fin r \<and> 0 \<le> r"
proof (induction xs arbitrary: s)
  case Nil
  then show ?case by simp
next
  case (Cons x xs)
  from Cons.prems(2)[of x] obtain r where r: "x = Fin r" "0 \<le> r" by auto
  have "\<exists>r'. foldl jadd (Fin (s + r)) xs = Fin r' \<and> 0 \<le> r'"
    using Cons.prems r by (intro Cons.IH) simp_all
  then show ?case using r by simp
qed

lemma selected_bound:
  assumes "1 \<le> n"
    and "idx \<in> set (select_loop (validIdx_of tms xs ys) n
                      (sample_step (length (validIdx_of tms xs ys)) n) 0 [])"
  shows "idx < length tms"
proof -
  let ?v = "validIdx_of tms xs ys"
  from assms(2) obtain k where "k < min (nat n) (length ?v)"
      "idx = ?v ! (k * sample_step (length ?v) n)"
    unfolding select_loop_positions[OF assms(1)] by auto
  then have "idx \<in> set ?v" using position_in_range[OF assms(1)] by simp
  then show ?thesis by (rule validIdx_bound)
qed


lemma crossValidate_result:
  assumes "crossValidateElements sc ob n = Some r"
  shows "\<exists>el. elements ob = Some el
      \<and> 1 \<le> n
      \<and> samples r = min (nat n) (length (validIdx_of (times_jd sc) (obj_x ob) (obj_y ob)))
      \<and> 1 \<le> samples r
      \<and> rms_km r = jsqrt (jdiv (foldl jadd (Fin 0)
                 (map (sq_residual (times_jd sc) el (obj_x ob) (obj_y ob) (obj_z ob))
                    (select_loop (validIdx_of (times_jd sc) (obj_x ob) (obj_y ob)) n
                       (sample_step (length (validIdx_of (times_jd sc) (obj_x ob) (obj_y ob))) n)
                       0 [])))
                 (Fin (real (samples r))))"
proof -
  let ?v = "validIdx_of (times_jd sc) (obj_x ob) (obj_y ob)"
  from assms have nn: "crossValidateElements sc ob n \<noteq> None" by simp
  then obtain el where el: "elements ob = Some el"
    by (cases "elements ob") (simp_all add: crossValidate_None_iff)
  with nn have c: "truthy (el_a_AU el)" "el_e el \<noteq> Undefined" "el_i_deg el \<noteq> Undefined"
    "3 \<le> length ?v" "1 \<le> n"
    by (simp_all add: crossValidate_None_iff not_less)
  note acc = crossValidate_accept[OF el c, unfolded Let_def]
  have len: "length (select_loop ?v n (sample_step (length ?v) n) 0 []) = min (nat n) (length ?v)"
    by (rule select_loop_length[OF c(5)])
  have r: "r = \<lparr>rms_km = jsqrt (jdiv (foldl jadd (Fin 0)
                 (map (sq_residual (times_jd sc) el (obj_x ob) (obj_y ob) (obj_z ob))
                    (select_loop ?v n (sample_step (length ?v) n) 0 [])))
                 (Fin (real (min (nat n) (length ?v))))),
              samples = min (nat n) (length ?v)\<rparr>"
    using assms acc len by simp
  have "1 \<le> min (nat n) (length ?v)" using c(4,5) by simp
  then show ?thesis using el c(5) r by simp
qed

text \<open>
  C4, as the code has it: no result is returned exactly when the elements are absent, the
  semi-major axis is falsy (missing, \<open>null\<close>, \<open>0\<close> or \<open>NaN\<close>), the eccentricity or the
  inclination is \<open>undefined\<close>, fewer than 3 samples have \<open>x\<close> and \<open>y\<close> not \<open>null\<close>, or
  \<open>sampleCount \<le> 0\<close> (the zero-sample branch). A result counts
  \<open>min(sampleCount, validCount) \<ge> 1\<close> samples and its RMS is never negative; it is finite
  and \<open>\<ge> 0\<close> when the elements are valid and the recorded data finite.
\<close>

theorem crossValidate_absent_iff:
  "(crossValidateElements sc ob n = None \<longleftrightarrow>
      (case elements ob of
         None \<Rightarrow> True
       | Some el \<Rightarrow> \<not> truthy (el_a_AU el) \<or> el_e el = Undefined \<or> el_i_deg el = Undefined
           \<or> length (validIdx_of (times_jd sc) (obj_x ob) (obj_y ob)) < 3 \<or> n \<le> 0))
   \<and> (\<forall>r. crossValidateElements sc ob n = Some r \<longrightarrow>
          samples r = min (nat n) (length (validIdx_of (times_jd sc) (obj_x ob) (obj_y ob)))
        \<and> 1 \<le> samples r
        \<and> \<not> jlt (rms_km r) (Fin 0)
        \<and> (well_formed_input sc ob \<longrightarrow> (\<exists>x. rms_km r = Fin x \<and> 0 \<le> x)))"
proof (intro conjI allI impI)
  show "crossValidateElements sc ob n = None \<longleftrightarrow>
      (case elements ob of
         None \<Rightarrow> True
       | Some el \<Rightarrow> \<not> truthy (el_a_AU el) \<or> el_e el = Undefined \<or> el_i_deg el = Undefined
           \<or> length (validIdx_of (times_jd sc) (obj_x ob) (obj_y ob)) < 3 \<or> n \<le> 0)"
    by (rule crossValidate_None_iff)
next
  fix r assume r: "crossValidateElements sc ob n = Some r"
  let ?v = "validIdx_of (times_jd sc) (obj_x ob) (obj_y ob)"
  let ?smp = "select_loop ?v n (sample_step (length ?v) n) 0 []"
  from crossValidate_result[OF r] obtain el where el: "elements ob = Some el" "1 \<le> n"
    "samples r = min (nat n) (length ?v)" "1 \<le> samples r"
    "rms_km r = jsqrt (jdiv (foldl jadd (Fin 0)
                 (map (sq_residual (times_jd sc) el (obj_x ob) (obj_y ob) (obj_z ob)) ?smp))
                 (Fin (real (samples r))))"
    by blast
  show "samples r = min (nat n) (length ?v)" by (rule el(3))
  show "1 \<le> samples r" by (rule el(4))
  have pos: "0 < real (samples r)" using el(4) by simp
  have "\<not> jlt (foldl jadd (Fin 0)
                 (map (sq_residual (times_jd sc) el (obj_x ob) (obj_y ob) (obj_z ob)) ?smp)) (Fin 0)"
    by (rule foldl_jadd_nonneg) (auto simp add: sq_residual_nonneg)
  then show "\<not> jlt (rms_km r) (Fin 0)"
    unfolding el(5) by (intro jsqrt_nonneg)
  show "\<exists>x. rms_km r = Fin x \<and> 0 \<le> x" if wf: "well_formed_input sc ob"
  proof -
    from wf el(1) have w: "valid_elements el" "list_all is_finite (times_jd sc)"
      "list_all finite_coord (obj_x ob)" "list_all finite_coord (obj_y ob)"
      "list_all finite_coord (obj_z ob)"
      by (simp_all add: well_formed_input_def)
    have "\<exists>q. x = Fin q \<and> 0 \<le> q"
      if "x \<in> set (map (sq_residual (times_jd sc) el (obj_x ob) (obj_y ob) (obj_z ob)) ?smp)"
      for x
    proof -
      from that obtain idx where idx: "idx \<in> set ?smp"
        "x = sq_residual (times_jd sc) el (obj_x ob) (obj_y ob) (obj_z ob) idx" by auto
      have "idx < length (times_jd sc)" using selected_bound[OF el(2) idx(1)] .
      then show ?thesis using sq_residual_finite[OF w(1) _ w(2-5)] idx(2) by simp
    qed
    then obtain S where S: "foldl jadd (Fin 0)
                 (map (sq_residual (times_jd sc) el (obj_x ob) (obj_y ob) (obj_z ob)) ?smp) = Fin S"
      "0 \<le> S"
      using foldl_jadd_finite[of 0] by blast
    have "0 \<le> S / real (samples r)" using S(2) pos by simp
    then have "rms_km r = Fin (sqrt (S / real (samples r)))"
      unfolding el(5) S(1) using pos by (simp add: not_less)
    moreover have "0 \<le> sqrt (S / real (samples r))" using S(2) pos by simp
    ultimately show ?thesis by blast
  qed
qed


lemma example_well_formed:
  "well_formed_input example_scene (example_obj name (Number (Fin 1)) (Number (Fin 0)))"
  by (simp add: well_formed_input_def valid_elements_def example_scene_def example_obj_def)

theorem crossValidate_absent_iff_witness:
  "\<exists>r. crossValidateElements example_scene
          (example_obj ''Ceres'' (Number (Fin 1)) (Number (Fin 0))) 10 = Some r
       \<and> samples r = 3 \<and> (\<exists>x. rms_km r = Fin x \<and> 0 \<le> x)"
proof -
  let ?ob = "example_obj ''Ceres'' (Number (Fin 1)) (Number (Fin 0))"
  note th = crossValidate_absent_iff[of example_scene ?ob 10]
  have el: "elements ?ob = Some \<lparr>el_a_AU = Number (Fin 1), el_e = Number (Fin 0),
                                 el_i_deg = Number (Fin 0)\<rparr>"
    by (simp add: example_obj_def)
  from th have "crossValidateElements example_scene ?ob 10 \<noteq> None"
    by (simp add: el validIdx_example)
  then obtain r where r: "crossValidateElements example_scene ?ob 10 = Some r" by blast
  with th have "samples r = 3" "\<exists>x. rms_km r = Fin x \<and> 0 \<le> x"
    by (simp_all add: validIdx_example example_well_formed)
  with r show ?thesis by blast
qed

lemma sq_residual_hyperbolic:
  assumes "el_e el = Number (Fin e)" and "1 < e\<^sup>2"
  shows "sq_residual tms el xs ys zs idx = NaN"
proof -
  have "elementsToPosition (toNumber (el_a_AU el)) (Fin e) (toNumber (el_i_deg el))
          (Fin 0) (Fin 0) (Fin 0) (Fin 2451545) (tget tms idx) = (NaN, NaN, NaN)"
    by (simp only: elementsToPosition_split position_at_anomaly_hyperbolic[OF assms(2)])
  then show ?thesis by (simp add: sq_residual_def assms(1))
qed

text \<open>
  With 3 valid samples and complete elements no result is returned for \<open>sampleCount = 0\<close>,
  nor for \<open>a = 0\<close>; and the eccentricity \<open>2\<close> gives a result whose RMS is \<open>NaN\<close>.
\<close>

theorem crossValidate_absent_counterexample:
  "length (validIdx_of (times_jd example_scene)
       (obj_x (example_obj ''Ceres'' (Number (Fin 1)) (Number (Fin 0))))
       (obj_y (example_obj ''Ceres'' (Number (Fin 1)) (Number (Fin 0))))) = 3
   \<and> elements (example_obj ''Ceres'' (Number (Fin 1)) (Number (Fin 0))) =
        Some \<lparr>el_a_AU = Number (Fin 1), el_e = Number (Fin 0), el_i_deg = Number (Fin 0)\<rparr>
   \<and> crossValidateElements example_scene
        (example_obj ''Ceres'' (Number (Fin 1)) (Number (Fin 0))) 0 = None
   \<and> crossValidateElements example_scene
        (example_obj ''Ceres'' (Number (Fin 0)) (Number (Fin 0))) 10 = None
   \<and> crossValidateElements example_scene
        (example_obj ''Ceres'' (Number (Fin 1)) (Number (Fin 2))) 10 =
        Some \<lparr>rms_km = NaN, samples = 3\<rparr>"
proof -
  let ?ob = "example_obj ''Ceres'' (Number (Fin 1)) (Number (Fin 2))"
  let ?el = "\<lparr>el_a_AU = Number (Fin 1), el_e = Number (Fin 2), el_i_deg = Number (Fin 0)\<rparr>"
  have el: "elements (example_obj ''Ceres'' a e) =
        Some \<lparr>el_a_AU = a, el_e = e, el_i_deg = Number (Fin 0)\<rparr>" for a e
    by (simp add: example_obj_def)
  have n0: "crossValidateElements example_scene
        (example_obj ''Ceres'' (Number (Fin 1)) (Number (Fin 0))) 0 = None"
    by (simp add: crossValidate_None_iff el)
  have a0: "crossValidateElements example_scene
        (example_obj ''Ceres'' (Number (Fin 0)) (Number (Fin 0))) 10 = None"
    by (simp add: crossValidate_None_iff el)
  have h: "truthy (el_a_AU ?el)" "el_e ?el \<noteq> Undefined" "el_i_deg ?el \<noteq> Undefined"
    "3 \<le> length (validIdx_of (times_jd example_scene) (obj_x ?ob) (obj_y ?ob))" "(1::int) \<le> 10"
    by (simp_all add: validIdx_example)
  have nan: "sq_residual tms ?el xs ys zs idx = NaN" for tms xs ys zs idx
    by (rule sq_residual_hyperbolic[of _ 2]) simp_all
  have e2: "crossValidateElements example_scene ?ob 10 = Some \<lparr>rms_km = NaN, samples = 3\<rparr>"
    using crossValidate_accept[OF el h] example_selection
    by (simp add: Let_def validIdx_example nan)
  show ?thesis using n0 a0 e2 by (simp add: validIdx_example el)
qed

section \<open>Cross-validation: a function of its inputs\<close>

lemma indices_at_push: "indices_at (push h a i) a = indices_at h a @ [i]"
  by (simp add: push_def indices_at_def)

lemma same_below_refl: "same_below k h h"
  by (simp add: same_below_def)

lemma same_below_trans: "same_below k h h' \<Longrightarrow> same_below k h' h'' \<Longrightarrow> same_below k h h''"
  by (auto simp add: same_below_def)

lemma same_below_push: "k \<le> a \<Longrightarrow> same_below k h (push h a i)"
  by (simp add: same_below_def push_def)

lemma same_below_new: "k \<le> next_addr h \<Longrightarrow> same_below k h (snd (new_array h))"
  by (simp add: same_below_def new_array_def)

lemma same_below_fill: "k \<le> va \<Longrightarrow> same_below k h (fill_validIdx ob va is h)"
proof (induction "is" arbitrary: h)
  case Nil
  show ?case by (simp add: same_below_refl)
next
  case (Cons i rest)
  show ?case
    using same_below_trans[OF same_below_push[OF Cons.prems] Cons.IH[OF Cons.prems]]
      Cons.IH[OF Cons.prems]
    by simp
qed

lemma same_below_select: "k \<le> sa \<Longrightarrow> same_below k h (select_on_heap va sa n step j h)"
proof (induction va sa n step j h rule: select_on_heap.induct)
  case (1 va sa n step j h)
  show ?case
  proof (cases "j < length (indices_at h va) \<and> int (length (indices_at h sa)) < n")
    case True
    from same_below_trans[OF same_below_push[OF "1.prems"] "1.IH"[OF True "1.prems"]] True
    show ?thesis by (subst select_on_heap.simps) simp
  next
    case False
    then show ?thesis by (subst select_on_heap.simps) (auto simp add: same_below_refl)
  qed
qed


lemma reads_same_below:
  assumes "same_below k h h'" and "a < k"
  shows "coords_at h' a = coords_at h a" and "times_at h' a = times_at h a"
    and "indices_at h' a = indices_at h a" and "elements_at h' (Some a) = elements_at h (Some a)"
  using assms
  by (simp_all add: same_below_def coords_at_def times_at_def indices_at_def elements_at_def)

lemma elements_same_below:
  assumes "same_below k h h'" and "case r of None \<Rightarrow> True | Some a \<Rightarrow> a < k"
  shows "elements_at h' r = elements_at h r"
proof (cases r)
  case None
  then show ?thesis by (simp add: elements_at_def)
next
  case (Some a)
  then show ?thesis using assms reads_same_below(4)[of k h h' a] by simp
qed

lemma push_other: "b \<noteq> a \<Longrightarrow> cells (push h a i) b = cells h b"
  by (simp add: push_def)

lemma next_addr_push: "next_addr (push h a i) = next_addr h"
  by (simp add: push_def)

lemma coords_at_push: "b \<noteq> a \<Longrightarrow> coords_at (push h a i) b = coords_at h b"
  by (simp add: coords_at_def push_other)

lemma indices_at_push_other: "b \<noteq> a \<Longrightarrow> indices_at (push h a i) b = indices_at h b"
  by (simp add: indices_at_def push_other)

lemma next_addr_fill: "next_addr (fill_validIdx ob va is h) = next_addr h"
  by (induction "is" arbitrary: h) (simp_all add: next_addr_push)

lemma next_addr_select: "next_addr (select_on_heap va sa n step j h) = next_addr h"
proof (induction va sa n step j h rule: select_on_heap.induct)
  case (1 va sa n step j h)
  then show ?case by (subst select_on_heap.simps) (simp add: next_addr_push)
qed

lemma fill_validIdx_indices:
  assumes "ref_x ob \<noteq> va" and "ref_y ob \<noteq> va"
  shows "indices_at (fill_validIdx ob va is h) va =
           indices_at h va @
           filter (\<lambda>i. aget (coords_at h (ref_x ob)) i \<noteq> Null
                      \<and> aget (coords_at h (ref_y ob)) i \<noteq> Null) is"
proof (induction "is" arbitrary: h)
  case Nil
  show ?case by simp
next
  case (Cons i rest)
  show ?case
    using assms by (simp add: Cons.IH coords_at_push indices_at_push)
qed

lemma select_on_heap_indices:
  "va \<noteq> sa \<Longrightarrow>
     indices_at (select_on_heap va sa n step j h) sa =
       select_loop (indices_at h va) n step j (indices_at h sa)"
proof (induction va sa n step j h rule: select_on_heap.induct)
  case (1 va sa n step j h)
  show ?case
  proof (cases "j < length (indices_at h va) \<and> int (length (indices_at h sa)) < n")
    case True
    have "indices_at (select_on_heap va sa n step j h) sa =
        indices_at (select_on_heap va sa n step (j + step) (push h sa (indices_at h va ! j))) sa"
      using True by (subst select_on_heap.simps) simp
    also have "\<dots> = select_loop (indices_at h va) n step (j + step)
                       (indices_at h sa @ [indices_at h va ! j])"
      using "1.IH"[OF True "1.prems"] "1.prems"
      by (simp add: indices_at_push indices_at_push_other)
    also have "\<dots> = select_loop (indices_at h va) n step j (indices_at h sa)"
      using True by (subst (2) select_loop.simps) simp
    finally show ?thesis .
  next
    case False
    then show ?thesis
      by (subst select_on_heap.simps, subst select_loop.simps) auto
  qed
qed


lemma crossValidate_on_heap_run:
  assumes al: "allocated h sc ob"
  shows "fst (crossValidate_on_heap sc ob n h) =
           crossValidateElements (scene_of h sc) (obj_of h name ob) n
       \<and> same_below (next_addr h) h (snd (crossValidate_on_heap sc ob n h))"
proof (cases "elements_at h (ref_elements ob)")
  case None
  then show ?thesis
    by (simp add: crossValidate_on_heap_def crossValidateElements_def obj_of_def same_below_refl)
next
  case (Some el)
  let ?k = "next_addr h"
  let ?ts = "times_at h (ref_times sc)"
  let ?xs = "coords_at h (ref_x ob)"
  let ?ys = "coords_at h (ref_y ob)"
  let ?zs = "coords_at h (ref_z ob)"
  let ?v = "validIdx_of ?ts ?xs ?ys"
  from al have r: "ref_times sc < ?k" "ref_x ob < ?k" "ref_y ob < ?k" "ref_z ob < ?k"
    "case ref_elements ob of None \<Rightarrow> True | Some a \<Rightarrow> a < ?k"
    by (simp_all add: allocated_def)
  show ?thesis
  proof (cases "\<not> truthy (el_a_AU el) \<or> el_e el = Undefined \<or> el_i_deg el = Undefined")
    case True
    then show ?thesis using Some
      by (simp add: crossValidate_on_heap_def crossValidateElements_def obj_of_def
            same_below_refl)
  next
    case guard: False
    define h1 where "h1 = snd (new_array h)"
    have na1: "new_array h = (?k, h1)" by (simp add: h1_def new_array_def)
    have sb1: "same_below ?k h h1" unfolding h1_def by (rule same_below_new) simp
    have n1: "next_addr h1 = Suc ?k" by (simp add: h1_def new_array_def)
    have i1: "indices_at h1 ?k = []" by (simp add: h1_def new_array_def indices_at_def)
    define h2 where "h2 = fill_validIdx ob ?k [0..<length (times_at h1 (ref_times sc))] h1"
    have sb2: "same_below ?k h h2"
      unfolding h2_def by (rule same_below_trans[OF sb1 same_below_fill]) simp
    have n2: "next_addr h2 = Suc ?k" by (simp add: h2_def next_addr_fill n1)
    have v2: "indices_at h2 ?k = ?v"
      unfolding h2_def using r(2,3)
      by (simp add: fill_validIdx_indices i1 validIdx_of_def
            reads_same_below[OF sb1 r(1)] reads_same_below[OF sb1 r(2)]
            reads_same_below[OF sb1 r(3)])
    show ?thesis
    proof (cases "length ?v < 3")
      case True
      then show ?thesis using Some guard sb2
        by (simp add: crossValidate_on_heap_def crossValidateElements_def obj_of_def
              scene_of_def na1 h2_def[symmetric] v2)
    next
      case enough: False
      define h3 where "h3 = snd (new_array h2)"
      have na3: "new_array h2 = (Suc ?k, h3)" by (simp add: h3_def new_array_def n2)
      have sb23: "same_below ?k h2 h3" unfolding h3_def by (rule same_below_new) (simp add: n2)
      have v3: "indices_at h3 ?k = ?v"
        using v2 by (simp add: h3_def new_array_def indices_at_def n2)
      have s3: "indices_at h3 (Suc ?k) = []"
        by (simp add: h3_def new_array_def indices_at_def n2)
      define h4 where
        "h4 = select_on_heap ?k (Suc ?k) n (sample_step (length ?v) n) 0 h3"
      have sb34: "same_below ?k h3 h4" unfolding h4_def by (rule same_below_select) simp
      have sb4: "same_below ?k h h4"
        by (rule same_below_trans[OF sb2 same_below_trans[OF sb23 sb34]])
      have s4: "indices_at h4 (Suc ?k) = select_loop ?v n (sample_step (length ?v) n) 0 []"
        unfolding h4_def by (simp add: select_on_heap_indices v3 s3)
      have e4: "elements_at h4 (ref_elements ob) = Some el"
        using elements_same_below[OF sb4 r(5)] Some by simp
      show ?thesis
        using Some guard enough sb4
        by (simp add: crossValidate_on_heap_def crossValidateElements_def obj_of_def
              scene_of_def na1 h2_def[symmetric] v2 na3 v3 h4_def[symmetric] s4 e4 Let_def
              reads_same_below[OF sb4 r(1)] reads_same_below[OF sb4 r(2)]
              reads_same_below[OF sb4 r(3)] reads_same_below[OF sb4 r(4)]
              split: prod.splits)
    qed
  qed
qed


lemma same_below_mono: "k \<le> k' \<Longrightarrow> same_below k' h h' \<Longrightarrow> same_below k h h'"
  by (simp add: same_below_def)

lemma views_same_below:
  assumes "allocated h sc ob" and "same_below (next_addr h) h h'"
  shows "scene_of h' sc = scene_of h sc" and "obj_of h' name ob = obj_of h name ob"
    and "allocated h' sc ob"
proof -
  from assms(1) have r: "ref_times sc < next_addr h" "ref_x ob < next_addr h"
    "ref_y ob < next_addr h" "ref_z ob < next_addr h"
    "case ref_elements ob of None \<Rightarrow> True | Some a \<Rightarrow> a < next_addr h"
    by (simp_all add: allocated_def)
  show "scene_of h' sc = scene_of h sc"
    by (simp add: scene_of_def reads_same_below[OF assms(2) r(1)])
  show "obj_of h' name ob = obj_of h name ob"
    by (simp add: obj_of_def reads_same_below[OF assms(2) r(2)]
          reads_same_below[OF assms(2) r(3)] reads_same_below[OF assms(2) r(4)]
          elements_same_below[OF assms(2) r(5)])
  have "next_addr h \<le> next_addr h'" using assms(2) by (simp add: same_below_def)
  then show "allocated h' sc ob"
    using r by (auto simp add: allocated_def split: option.splits)
qed

text \<open>
  C9: on a heap where the references of the scene and of the object are allocated, an
  invocation returns what the function of the elements, the recorded samples and
  \<open>sampleCount\<close> returns, a second invocation on the heap the first one left returns the
  same result, and after either the elements, the coordinate arrays and the time grid are
  what they were: the function writes to the two arrays it allocates and to nothing else.
\<close>

theorem crossValidate_pure:
  assumes "allocated h sc ob"
    and "crossValidate_on_heap sc ob n h = (r1, h1)"
    and "crossValidate_on_heap sc ob n h1 = (r2, h2)"
  shows "r1 = crossValidateElements (scene_of h sc) (obj_of h name ob) n
       \<and> r2 = r1
       \<and> scene_of h1 sc = scene_of h sc \<and> obj_of h1 name ob = obj_of h name ob
       \<and> scene_of h2 sc = scene_of h sc \<and> obj_of h2 name ob = obj_of h name ob"
proof -
  from crossValidate_on_heap_run[OF assms(1), of n name] assms(2)
  have r1: "r1 = crossValidateElements (scene_of h sc) (obj_of h name ob) n"
    and sb1: "same_below (next_addr h) h h1" by simp_all
  note v1 = views_same_below[OF assms(1) sb1]
  from crossValidate_on_heap_run[OF v1(3), of n name] assms(3)
  have r2: "r2 = crossValidateElements (scene_of h1 sc) (obj_of h1 name ob) n"
    and sb2: "same_below (next_addr h1) h1 h2" by simp_all
  note v2 = views_same_below[OF v1(3) sb2]
  show ?thesis
    using r1 r2 v1(1,2) v2(1,2) by simp
qed

lemma example_allocated: "allocated example_heap example_scene_ref example_obj_ref"
  by (simp add: allocated_def example_heap_def example_scene_ref_def example_obj_ref_def)

theorem crossValidate_pure_witness:
  "obj_of example_heap ''Ceres'' example_obj_ref
     = example_obj ''Ceres'' (Number (Fin 1)) (Number (Fin 0))
   \<and> fst (crossValidate_on_heap example_scene_ref example_obj_ref 10
            (snd (crossValidate_on_heap example_scene_ref example_obj_ref 10 example_heap)))
     = fst (crossValidate_on_heap example_scene_ref example_obj_ref 10 example_heap)
   \<and> obj_of (snd (crossValidate_on_heap example_scene_ref example_obj_ref 10
            (snd (crossValidate_on_heap example_scene_ref example_obj_ref 10 example_heap))))
        ''Ceres'' example_obj_ref
     = example_obj ''Ceres'' (Number (Fin 1)) (Number (Fin 0))"
proof -
  let ?run = "crossValidate_on_heap example_scene_ref example_obj_ref 10"
  have o: "obj_of example_heap ''Ceres'' example_obj_ref
     = example_obj ''Ceres'' (Number (Fin 1)) (Number (Fin 0))"
    by (simp add: obj_of_def example_obj_def example_heap_def example_obj_ref_def
          elements_at_def coords_at_def)
  have a: "?run example_heap = (fst (?run example_heap), snd (?run example_heap))" by simp
  have b: "?run (snd (?run example_heap)) =
      (fst (?run (snd (?run example_heap))), snd (?run (snd (?run example_heap))))" by simp
  show ?thesis
    using crossValidate_pure[OF example_allocated a b, of "''Ceres''"] o by simp
qed

end
